theory Spec2Isabelle
  imports Main "HOL-Library.Word"
begin

section \<open>Go memory: slices, pointers and a typed store\<close>

text \<open>
  The engine client of \<^verbatim>\<open>lib/ethclient/engineclient.go\<close> copies slices and
  pointers, and several properties of it are about which storage the copies share with
  their source.  The model therefore keeps Go's memory explicit.  There is one store per
  element type (Go's type system keeps a \<^verbatim>\<open>[]byte\<close> array apart from a
  \<^verbatim>\<open>[][]byte\<close> array or a \<^verbatim>\<open>*uint64\<close> cell); a store is a list of
  allocated objects, an address is an index into it, and an allocation appends one
  object, so that the new address is the old length of the store.

  A slice is either \<^verbatim>\<open>nil\<close> or a header made of the address of its backing array,
  the offset of its first element in that array and its length.  The capacity is left
  out: the code below never reads it, except for the capacity of a nil slice, which is 0.
\<close>

type_synonym byte = "8 word"
type_synonym addr = nat

datatype slice = NilSlice | Slice addr nat nat

text \<open>\<^verbatim>\<open>types.Withdrawal\<close> of go-ethereum; the client only moves pointers to it.\<close>

record Withdrawal =
  wd_Index :: "64 word"
  wd_Validator :: "64 word"
  wd_Address :: "byte list"
  wd_Amount :: "64 word"

record heap =
  byte_arrays :: "byte list list"
  tx_arrays :: "slice list list"
  wd_arrays :: "addr option list list"
  withdrawal_objs :: "Withdrawal list"
  bigint_objs :: "int list"
  uint64_objs :: "64 word list"

fun slice_len :: "slice \<Rightarrow> nat" where
  "slice_len NilSlice = 0"
| "slice_len (Slice a off n) = n"

text \<open>The elements a slice shows, read from the store that holds its backing array.\<close>

fun read_slice :: "'a list list \<Rightarrow> slice \<Rightarrow> 'a list" where
  "read_slice st NilSlice = []"
| "read_slice st (Slice a off n) = take n (drop off (st ! a))"

text \<open>
  A slice a Go program can hold points into allocated memory and stays inside its
  backing array.
\<close>

fun slice_ok :: "'a list list \<Rightarrow> slice \<Rightarrow> bool" where
  "slice_ok st NilSlice = True"
| "slice_ok st (Slice a off n) = (a < length st \<and> off + n \<le> length (st ! a))"

text \<open>
  A \<^verbatim>\<open>[][]byte\<close> value is well formed when its own header is, and every
  \<^verbatim>\<open>[]byte\<close> header stored in it is.
\<close>

definition txs_ok :: "heap \<Rightarrow> slice \<Rightarrow> bool" where
  "txs_ok h s =
     (slice_ok (tx_arrays h) s \<and>
      list_all (slice_ok (byte_arrays h)) (read_slice (tx_arrays h) s))"

text \<open>The raw bytes of every transaction of a \<^verbatim>\<open>[][]byte\<close> value.\<close>

definition tx_contents :: "heap \<Rightarrow> slice \<Rightarrow> byte list list" where
  "tx_contents h s = map (read_slice (byte_arrays h)) (read_slice (tx_arrays h) s)"

section \<open>copyTransactions and copyWithdrawals\<close>

text \<open>
  \<^verbatim>\<open>append([]byte(nil), tx...)\<close>.  Go's \<^verbatim>\<open>append\<close> allocates a new array only
  when the capacity of its first argument cannot hold the result; the first argument
  here is nil, of capacity 0, so with no byte to add the nil slice itself comes back, and
  with at least one byte a new array holding the bytes of \<^verbatim>\<open>tx\<close> is allocated.
\<close>

definition append_nil_bytes :: "heap \<Rightarrow> slice \<Rightarrow> slice \<times> heap" where
  "append_nil_bytes h tx =
     (let elems = read_slice (byte_arrays h) tx in
      if elems = [] then (NilSlice, h)
      else (Slice (length (byte_arrays h)) 0 (length elems),
            h\<lparr>byte_arrays := byte_arrays h @ [elems]\<rparr>))"

text \<open>\<^verbatim>\<open>copied[i] = v\<close> for the slice \<^verbatim>\<open>copied\<close> that starts its array \<open>c\<close>.\<close>

definition store_tx :: "heap \<Rightarrow> addr \<Rightarrow> nat \<Rightarrow> slice \<Rightarrow> heap" where
  "store_tx h c i v = h\<lparr>tx_arrays := (tx_arrays h)[c := (tx_arrays h ! c)[i := v]]\<rparr>"

definition store_wd :: "heap \<Rightarrow> addr \<Rightarrow> nat \<Rightarrow> addr option \<Rightarrow> heap" where
  "store_wd h c i v = h\<lparr>wd_arrays := (wd_arrays h)[c := (wd_arrays h ! c)[i := v]]\<rparr>"

text \<open>
  The body of \<^verbatim>\<open>for i, tx := range transactions\<close>, from index \<open>i\<close> on.  The source
  slice is array \<open>a\<close> from offset \<open>off\<close>, of length \<open>n\<close>; element \<open>i\<close> is read from
  the store as it is when the iteration starts.
\<close>

function copyTransactions_loop ::
  "heap \<Rightarrow> addr \<Rightarrow> nat \<Rightarrow> nat \<Rightarrow> addr \<Rightarrow> nat \<Rightarrow> heap" where
  "copyTransactions_loop h a off n c i =
     (if i < n then
        (let tx = tx_arrays h ! a ! (off + i) in
         if tx \<noteq> NilSlice then
           (let (v, h1) = append_nil_bytes h tx
            in copyTransactions_loop (store_tx h1 c i v) a off n c (Suc i))
         else copyTransactions_loop h a off n c (Suc i))
      else h)"
  by pat_completeness auto
termination
  by (relation "measure (\<lambda>(h, a, off, n, c, i). n - i)") auto

declare copyTransactions_loop.simps [simp del]

text \<open>
  \<^verbatim>\<open>[][]byte{}\<close> is a slice of a new array of length 0, and
  \<^verbatim>\<open>make([][]byte, n)\<close> a slice of a new array of \<open>n\<close> nil slices.
\<close>

definition copyTransactions :: "heap \<Rightarrow> slice \<Rightarrow> slice \<times> heap" where
  "copyTransactions h transactions =
     (case transactions of
        NilSlice \<Rightarrow>
          (Slice (length (tx_arrays h)) 0 0, h\<lparr>tx_arrays := tx_arrays h @ [[]]\<rparr>)
      | Slice a off n \<Rightarrow>
          (let c = length (tx_arrays h);
               h1 = h\<lparr>tx_arrays := tx_arrays h @ [replicate n NilSlice]\<rparr>
           in (Slice c 0 n, copyTransactions_loop h1 a off n c 0)))"

function copyWithdrawals_loop ::
  "heap \<Rightarrow> addr \<Rightarrow> nat \<Rightarrow> nat \<Rightarrow> addr \<Rightarrow> nat \<Rightarrow> heap" where
  "copyWithdrawals_loop h a off n c i =
     (if i < n then
        (let withdrawal = wd_arrays h ! a ! (off + i) in
         if withdrawal \<noteq> None then
           copyWithdrawals_loop (store_wd h c i withdrawal) a off n c (Suc i)
         else copyWithdrawals_loop h a off n c (Suc i))
      else h)"
  by pat_completeness auto
termination
  by (relation "measure (\<lambda>(h, a, off, n, c, i). n - i)") auto

declare copyWithdrawals_loop.simps [simp del]

definition copyWithdrawals :: "heap \<Rightarrow> slice \<Rightarrow> slice \<times> heap" where
  "copyWithdrawals h withdrawals =
     (case withdrawals of
        NilSlice \<Rightarrow>
          (Slice (length (wd_arrays h)) 0 0, h\<lparr>wd_arrays := wd_arrays h @ [[]]\<rparr>)
      | Slice a off n \<Rightarrow>
          (let c = length (wd_arrays h);
               h1 = h\<lparr>wd_arrays := wd_arrays h @ [replicate n None]\<rparr>
           in (Slice c 0 n, copyWithdrawals_loop h1 a off n c 0)))"

section \<open>The payload converter\<close>

type_synonym hash = "byte list"

text \<open>
  \<^verbatim>\<open>engine.ExecutableData\<close> of go-ethereum, with the fields the converter reads.
  Hashes and the address are fixed-size arrays, copied by value; \<^verbatim>\<open>*big.Int\<close>,
  \<^verbatim>\<open>*uint64\<close> and \<^verbatim>\<open>*types.ExecutionWitness\<close> are pointers, \<open>None\<close> for nil.
\<close>

record ExecutableData =
  ed_ParentHash :: hash
  ed_FeeRecipient :: "byte list"
  ed_StateRoot :: hash
  ed_ReceiptsRoot :: hash
  ed_LogsBloom :: slice
  ed_Random :: hash
  ed_Number :: "64 word"
  ed_GasLimit :: "64 word"
  ed_GasUsed :: "64 word"
  ed_Timestamp :: "64 word"
  ed_ExtraData :: slice
  ed_BaseFeePerGas :: "addr option"
  ed_BlockHash :: hash
  ed_Transactions :: slice
  ed_Withdrawals :: slice
  ed_BlobGasUsed :: "addr option"
  ed_ExcessBlobGas :: "addr option"
  ed_ExecutionWitness :: "addr option"

record RethPayloadV3 =
  ParentHash :: hash
  FeeRecipient :: "byte list"
  StateRoot :: hash
  ReceiptsRoot :: hash
  LogsBloom :: slice
  Random :: hash
  Number :: "64 word"
  GasLimit :: "64 word"
  GasUsed :: "64 word"
  Timestamp :: "64 word"
  ExtraData :: slice
  BaseFeePerGas :: "addr option"
  BlockHash :: hash
  Transactions :: slice
  Withdrawals :: slice
  BlobGasUsed :: "addr option"
  ExcessBlobGas :: "addr option"
  ExecutionWitness :: "addr option"

text \<open>
  \<^verbatim>\<open>if p != nil { q = new(big.Int).Set(p) }\<close>: a new \<^verbatim>\<open>big.Int\<close> object that holds
  the value of the one \<open>p\<close> points to.
\<close>

definition copy_bigint :: "heap \<Rightarrow> addr option \<Rightarrow> addr option \<times> heap" where
  "copy_bigint h p =
     (case p of
        None \<Rightarrow> (None, h)
      | Some a \<Rightarrow>
          (Some (length (bigint_objs h)),
           h\<lparr>bigint_objs := bigint_objs h @ [bigint_objs h ! a]\<rparr>))"

text \<open>
  \<^verbatim>\<open>if p != nil { q = new(uint64); *q = *p }\<close>: a new cell, zero at first, then
  assigned the value read through \<open>p\<close>.
\<close>

definition copy_uint64 :: "heap \<Rightarrow> addr option \<Rightarrow> addr option \<times> heap" where
  "copy_uint64 h p =
     (case p of
        None \<Rightarrow> (None, h)
      | Some a \<Rightarrow>
          (let q = length (uint64_objs h);
               h1 = h\<lparr>uint64_objs := uint64_objs h @ [0]\<rparr>
           in (Some q, h1\<lparr>uint64_objs := (uint64_objs h1)[q := uint64_objs h1 ! a]\<rparr>)))"

definition ConvertExecutableDataToRethPayloadV3 ::
  "heap \<Rightarrow> ExecutableData \<Rightarrow> RethPayloadV3 \<times> heap" where
  "ConvertExecutableDataToRethPayloadV3 h ed =
     (let (baseFee, h1) = copy_bigint h (ed_BaseFeePerGas ed);
          (blobGasUsed, h2) = copy_uint64 h1 (ed_BlobGasUsed ed);
          (excessBlobGas, h3) = copy_uint64 h2 (ed_ExcessBlobGas ed);
          (transactions, h4) = copyTransactions h3 (ed_Transactions ed);
          (withdrawals, h5) = copyWithdrawals h4 (ed_Withdrawals ed)
      in (\<lparr>ParentHash = ed_ParentHash ed,
           FeeRecipient = ed_FeeRecipient ed,
           StateRoot = ed_StateRoot ed,
           ReceiptsRoot = ed_ReceiptsRoot ed,
           LogsBloom = ed_LogsBloom ed,
           Random = ed_Random ed,
           Number = ed_Number ed,
           GasLimit = ed_GasLimit ed,
           GasUsed = ed_GasUsed ed,
           Timestamp = ed_Timestamp ed,
           ExtraData = ed_ExtraData ed,
           BaseFeePerGas = baseFee,
           BlockHash = ed_BlockHash ed,
           Transactions = transactions,
           Withdrawals = withdrawals,
           BlobGasUsed = blobGasUsed,
           ExcessBlobGas = excessBlobGas,
           ExecutionWitness = ed_ExecutionWitness ed\<rparr>, h5))"

section \<open>The Engine API calls\<close>

text \<open>
  Modelled from the spec: the package \<^verbatim>\<open>lib/errors\<close> (\<^verbatim>\<open>errors.Wrap\<close>,
  \<^verbatim>\<open>errors.New\<close>) is not among the sources.  The spec speaks of a wrapped transport
  error and of a distinct "nil error, unexpected status" failure, and the callers pass a
  message followed by key/value attributes, so an error value is kept as the call that
  built it: \<open>Wrap e msg attrs\<close> for \<^verbatim>\<open>errors.Wrap(e, msg, attrs...)\<close>,
  \<open>New msg attrs\<close> for \<^verbatim>\<open>errors.New(msg, attrs...)\<close>, and \<open>Rpc msg\<close> for an error
  that comes out of the JSON-RPC library.
\<close>

datatype error =
    Rpc string
  | Wrap error string "(string \<times> string) list"
  | New string "(string \<times> string) list"

text \<open>
  Modelled from the spec: \<^verbatim>\<open>lib/log\<close> and the metrics helpers \<^verbatim>\<open>latency\<close> and
  \<^verbatim>\<open>incError\<close> are not among the sources.  The spec has every call emit a latency
  measurement and, on failure, an error counter increment, both labelled by chain and
  endpoint, and has a discarded transport error logged at warning level; an event
  records such a call with its arguments, and a run yields its events in the order they
  happen (\<^verbatim>\<open>defer latency(...)()\<close> starts the measurement where it stands and ends it
  on return).
\<close>

datatype event =
    LogDebug string
  | LogWarn string error "(string \<times> string) list"
  | IncError string string
  | LatencyBegin string string
  | LatencyEnd string string

record PayloadStatusV1 =
  Status :: string
  LatestValidHash :: "hash option"
  ValidationError :: "string option"

record ForkChoiceResponse =
  PayloadStatus :: PayloadStatusV1
  PayloadID :: "byte list option"

record ForkchoiceStateV1 =
  HeadBlockHash :: hash
  SafeBlockHash :: hash
  FinalizedBlockHash :: hash

text \<open>The zero values \<^verbatim>\<open>engine.PayloadStatusV1{}\<close> and \<^verbatim>\<open>engine.ForkChoiceResponse{}\<close>.\<close>

definition PayloadStatusV1_zero :: PayloadStatusV1 where
  "PayloadStatusV1_zero = \<lparr>Status = [], LatestValidHash = None, ValidationError = None\<rparr>"

definition ForkChoiceResponse_zero :: ForkChoiceResponse where
  "ForkChoiceResponse_zero = \<lparr>PayloadStatus = PayloadStatusV1_zero, PayloadID = None\<rparr>"

text \<open>The status strings of go-ethereum's \<^verbatim>\<open>beacon/engine\<close> and the method names.\<close>

definition VALID :: string where "VALID = ''VALID''"
definition INVALID :: string where "INVALID = ''INVALID''"
definition SYNCING :: string where "SYNCING = ''SYNCING''"
definition ACCEPTED :: string where "ACCEPTED = ''ACCEPTED''"

definition newPayloadV3 :: string where "newPayloadV3 = ''engine_newPayloadV3''"
definition forkchoiceUpdatedV3 :: string where
  "forkchoiceUpdatedV3 = ''engine_forkchoiceUpdatedV3''"
definition getPayloadV3 :: string where "getPayloadV3 = ''engine_getPayloadV3''"

text \<open>Indexing a \<^verbatim>\<open>map[string]bool\<close>: a key that is not there yields \<^verbatim>\<open>false\<close>.\<close>

definition map_index :: "(string \<times> bool) list \<Rightarrow> string \<Rightarrow> bool" where
  "map_index m k = (case map_of m k of None \<Rightarrow> False | Some b \<Rightarrow> b)"

definition isStatusOk_NewPayloadV3 :: "PayloadStatusV1 \<Rightarrow> bool" where
  "isStatusOk_NewPayloadV3 status =
     map_index [(VALID, True), (INVALID, True), (SYNCING, True), (ACCEPTED, True)]
       (Status status)"

definition isStatusOk_ForkchoiceUpdatedV3 :: "ForkChoiceResponse \<Rightarrow> bool" where
  "isStatusOk_ForkchoiceUpdatedV3 resp =
     map_index [(VALID, True), (INVALID, True), (SYNCING, True), (ACCEPTED, False)]
       (Status (PayloadStatus resp))"

text \<open>
  \<^verbatim>\<open>c.cl.Client().CallContext(ctx, &resp, method, args...)\<close> is the JSON-RPC
  library; the model takes it as the parameter \<open>call\<close>, which yields what the call
  leaves in \<^verbatim>\<open>resp\<close> together with the error it returns (\<open>None\<close> for nil).
  A Go function returns both of its results, so the model returns the pair, followed by
  the events and, for \<^verbatim>\<open>NewPayloadV3\<close>, the memory after the conversion.
\<close>

definition NewPayloadV3 ::
  "string \<Rightarrow>
   (string \<Rightarrow> heap \<Rightarrow> RethPayloadV3 \<Rightarrow> hash list \<Rightarrow> hash option \<Rightarrow>
      PayloadStatusV1 \<times> error option) \<Rightarrow>
   heap \<Rightarrow> ExecutableData \<Rightarrow> hash list \<Rightarrow> hash option \<Rightarrow>
   (PayloadStatusV1 \<times> error option) \<times> event list \<times> heap" where
  "NewPayloadV3 chain call h params versionedHashes beaconRoot =
     (let (rethPayload, h1) = ConvertExecutableDataToRethPayloadV3 h params;
          endpoint = ''new_payload_v3'';
          entry =
            [LogDebug ''Entering NewPayloadV3. Converting standard paylod to Seismic Reth payload'',
             LatencyBegin chain endpoint];
          (resp, err) = call newPayloadV3 h1 rethPayload versionedHashes beaconRoot
      in if isStatusOk_NewPayloadV3 resp then
           ((resp, None),
            entry @
            (case err of
               None \<Rightarrow> []
             | Some e \<Rightarrow>
                 [LogWarn ''Ignoring new_payload_v3 error with proper response'' e
                    [(''status'', Status resp)]]) @
            [LatencyEnd chain endpoint], h1)
         else
           (case err of
              Some e \<Rightarrow>
                ((PayloadStatusV1_zero, Some (Wrap e ''rpc new payload'' [])),
                 entry @ [IncError chain endpoint, LatencyEnd chain endpoint], h1)
            | None \<Rightarrow>
                ((PayloadStatusV1_zero,
                  Some (New ''nil error and unknown status'' [(''status'', Status resp)])),
                 entry @ [IncError chain endpoint, LatencyEnd chain endpoint], h1)))"

definition ForkchoiceUpdatedV3 ::
  "string \<Rightarrow>
   (string \<Rightarrow> ForkchoiceStateV1 \<Rightarrow> 'pa option \<Rightarrow> ForkChoiceResponse \<times> error option) \<Rightarrow>
   ForkchoiceStateV1 \<Rightarrow> 'pa option \<Rightarrow>
   (ForkChoiceResponse \<times> error option) \<times> event list" where
  "ForkchoiceUpdatedV3 chain call update payloadAttributes =
     (let endpoint = ''forkchoice_updated_v3'';
          entry = [LatencyBegin chain endpoint];
          (resp, err) = call forkchoiceUpdatedV3 update payloadAttributes
      in if isStatusOk_ForkchoiceUpdatedV3 resp then
           ((resp, None),
            entry @
            (case err of
               None \<Rightarrow> []
             | Some e \<Rightarrow>
                 [LogWarn ''Ignoring forkchoice_updated_v3 error with proper response'' e
                    [(''status'', Status (PayloadStatus resp))]]) @
            [LatencyEnd chain endpoint])
         else
           (case err of
              Some e \<Rightarrow>
                ((ForkChoiceResponse_zero, Some (Wrap e ''rpc forkchoice updated v3'' [])),
                 entry @ [IncError chain endpoint, LatencyEnd chain endpoint])
            | None \<Rightarrow>
                ((ForkChoiceResponse_zero,
                  Some (New ''nil error and unknown status''
                          [(''status'', Status (PayloadStatus resp))])),
                 entry @ [IncError chain endpoint, LatencyEnd chain endpoint])))"

text \<open>
  \<^verbatim>\<open>GetPayloadV3\<close> returns a pointer: \<open>None\<close> for nil, \<open>Some resp\<close> for
  \<^verbatim>\<open>&resp\<close>.  The envelope type belongs to go-ethereum and stays a type parameter.
\<close>

definition GetPayloadV3 ::
  "string \<Rightarrow> (string \<Rightarrow> byte list \<Rightarrow> 'env \<times> error option) \<Rightarrow> byte list \<Rightarrow>
   ('env option \<times> error option) \<times> event list" where
  "GetPayloadV3 chain call payloadID =
     (let endpoint = ''get_payload_v3'';
          entry = [LatencyBegin chain endpoint];
          (resp, err) = call getPayloadV3 payloadID
      in case err of
           Some e \<Rightarrow>
             ((None, Some (Wrap e ''rpc get payload v3'' [])),
              entry @ [IncError chain endpoint, LatencyEnd chain endpoint])
         | None \<Rightarrow> ((Some resp, None), entry @ [LatencyEnd chain endpoint]))"

section \<open>Notions used to state the properties\<close>

subsection \<open>Copies and loop invariants\<close>

text \<open>
  \<open>tx_copied old new src dst\<close>: the header \<open>dst\<close>, read in the byte store \<open>new\<close>, is
  a copy of the header \<open>src\<close>, read in the byte store \<open>old\<close>: a nil source gives a nil
  copy, the bytes are the same, and a copy that is not nil is the whole of a non-empty
  array that \<open>old\<close> does not have.
\<close>

definition tx_copied :: "byte list list \<Rightarrow> byte list list \<Rightarrow> slice \<Rightarrow> slice \<Rightarrow> bool" where
  "tx_copied old new src dst =
     ((src = NilSlice \<longrightarrow> dst = NilSlice) \<and>
      read_slice new dst = read_slice old src \<and>
      (dst = NilSlice \<or>
       (\<exists>b. dst = Slice b 0 (length (new ! b)) \<and> new ! b \<noteq> [] \<and>
            length old \<le> b \<and> b < length new)))"

text \<open>
  What holds when the loop of \<^verbatim>\<open>copyTransactions\<close> is at index \<open>i\<close>: source and
  destination are two allocated arrays, the source slice lies inside its array, the
  destination has \<open>n\<close> elements, the source elements still to be read are well formed
  and the destination elements still to be written are nil.
\<close>

definition ctl_pre :: "heap \<Rightarrow> addr \<Rightarrow> nat \<Rightarrow> nat \<Rightarrow> addr \<Rightarrow> nat \<Rightarrow> bool" where
  "ctl_pre h a off n c i =
     (a < length (tx_arrays h) \<and> c < length (tx_arrays h) \<and> a \<noteq> c \<and>
      off + n \<le> length (tx_arrays h ! a) \<and> length (tx_arrays h ! c) = n \<and>
      (\<forall>j. i \<le> j \<and> j < n \<longrightarrow>
         slice_ok (byte_arrays h) (tx_arrays h ! a ! (off + j)) \<and>
         tx_arrays h ! c ! j = NilSlice))"

text \<open>The same for the loop of \<^verbatim>\<open>copyWithdrawals\<close>.\<close>

definition cwl_pre :: "heap \<Rightarrow> addr \<Rightarrow> nat \<Rightarrow> nat \<Rightarrow> addr \<Rightarrow> nat \<Rightarrow> bool" where
  "cwl_pre h a off n c i =
     (a < length (wd_arrays h) \<and> c < length (wd_arrays h) \<and> a \<noteq> c \<and>
      off + n \<le> length (wd_arrays h ! a) \<and> length (wd_arrays h ! c) = n \<and>
      (\<forall>j. i \<le> j \<and> j < n \<longrightarrow> wd_arrays h ! c ! j = None))"

text \<open>A pointer a Go program can hold is nil or points to an allocated object.\<close>

fun ptr_ok :: "'a list \<Rightarrow> addr option \<Rightarrow> bool" where
  "ptr_ok st None = True"
| "ptr_ok st (Some a) = (a < length st)"

subsection \<open>Writes to memory after a call\<close>

text \<open>
  A call starts in the memory \<open>h\<close> and ends in \<open>h'\<close>.  \<open>mutated_old h h' h2\<close> says
  that \<open>h2\<close> is \<open>h'\<close> after any writes to objects that \<open>h\<close> already had (the caller's
  storage): every object allocated during the call is as in \<open>h'\<close>.
  \<open>mutated_new h h' h2\<close> says that \<open>h2\<close> is \<open>h'\<close> after any writes to objects
  allocated during the call: every object that \<open>h\<close> already had is as in \<open>h'\<close>.
\<close>

definition same_from :: "nat \<Rightarrow> 'a list \<Rightarrow> 'a list \<Rightarrow> bool" where
  "same_from k xs ys = (length xs = length ys \<and> drop k xs = drop k ys)"

definition same_upto :: "nat \<Rightarrow> 'a list \<Rightarrow> 'a list \<Rightarrow> bool" where
  "same_upto k xs ys = (take k xs = take k ys)"

definition mutated_old :: "heap \<Rightarrow> heap \<Rightarrow> heap \<Rightarrow> bool" where
  "mutated_old h h' h2 =
     (same_from (length (byte_arrays h)) (byte_arrays h2) (byte_arrays h') \<and>
      same_from (length (tx_arrays h)) (tx_arrays h2) (tx_arrays h') \<and>
      same_from (length (wd_arrays h)) (wd_arrays h2) (wd_arrays h') \<and>
      same_from (length (withdrawal_objs h)) (withdrawal_objs h2) (withdrawal_objs h') \<and>
      same_from (length (bigint_objs h)) (bigint_objs h2) (bigint_objs h') \<and>
      same_from (length (uint64_objs h)) (uint64_objs h2) (uint64_objs h'))"

definition mutated_new :: "heap \<Rightarrow> heap \<Rightarrow> heap \<Rightarrow> bool" where
  "mutated_new h h' h2 =
     (same_upto (length (byte_arrays h)) (byte_arrays h2) (byte_arrays h') \<and>
      same_upto (length (tx_arrays h)) (tx_arrays h2) (tx_arrays h') \<and>
      same_upto (length (wd_arrays h)) (wd_arrays h2) (wd_arrays h') \<and>
      same_upto (length (withdrawal_objs h)) (withdrawal_objs h2) (withdrawal_objs h') \<and>
      same_upto (length (bigint_objs h)) (bigint_objs h2) (bigint_objs h') \<and>
      same_upto (length (uint64_objs h)) (uint64_objs h2) (uint64_objs h'))"

subsection \<open>Errors and events\<close>

text \<open>The key/value attributes an error carries, its own and those of what it wraps.\<close>

fun attrs_of :: "error \<Rightarrow> (string \<times> string) list" where
  "attrs_of (Rpc m) = []"
| "attrs_of (Wrap e m as) = as @ attrs_of e"
| "attrs_of (New m as) = as"

text \<open>The errors that were written to the log by \<^verbatim>\<open>log.Warn\<close>.\<close>

fun logged_errors :: "event list \<Rightarrow> error list" where
  "logged_errors [] = []"
| "logged_errors (LogWarn m e as # evs) = e # logged_errors evs"
| "logged_errors (ev # evs) = logged_errors evs"

subsection \<open>Concrete inputs\<close>

definition empty_heap :: heap where
  "empty_heap = \<lparr>byte_arrays = [], tx_arrays = [], wd_arrays = [], withdrawal_objs = [],
     bigint_objs = [], uint64_objs = []\<rparr>"

definition empty_payload :: ExecutableData where
  "empty_payload = \<lparr>ed_ParentHash = [], ed_FeeRecipient = [], ed_StateRoot = [],
     ed_ReceiptsRoot = [], ed_LogsBloom = NilSlice, ed_Random = [], ed_Number = 0,
     ed_GasLimit = 0, ed_GasUsed = 0, ed_Timestamp = 0, ed_ExtraData = NilSlice,
     ed_BaseFeePerGas = None, ed_BlockHash = [], ed_Transactions = NilSlice,
     ed_Withdrawals = NilSlice, ed_BlobGasUsed = None, ed_ExcessBlobGas = None,
     ed_ExecutionWitness = None\<rparr>"

definition status_only :: "string \<Rightarrow> PayloadStatusV1" where
  "status_only s = \<lparr>Status = s, LatestValidHash = None, ValidationError = None\<rparr>"

definition fc_status_only :: "string \<Rightarrow> ForkChoiceResponse" where
  "fc_status_only s = \<lparr>PayloadStatus = status_only s, PayloadID = None\<rparr>"

definition zero_state :: ForkchoiceStateV1 where
  "zero_state = \<lparr>HeadBlockHash = [], SafeBlockHash = [], FinalizedBlockHash = []\<rparr>"

text \<open>
  A memory that holds the two transactions \<open>[0xAA]\<close> and \<open>[0xBB]\<close>, a withdrawals
  slice with one record and one nil pointer, a big integer and two \<^verbatim>\<open>uint64\<close> cells;
  and a memory whose only transaction is not nil and has no bytes.  The definitions after
  them are these memories after a copy.
\<close>

definition scenario_heap :: heap where
  "scenario_heap =
     \<lparr>byte_arrays = [[0xAA], [0xBB], [0x01, 0x02]], tx_arrays = [[Slice 0 0 1, Slice 1 0 1]],
      wd_arrays = [[Some 0, None]],
      withdrawal_objs = [\<lparr>wd_Index = 1, wd_Validator = 2, wd_Address = [], wd_Amount = 3\<rparr>],
      bigint_objs = [7], uint64_objs = [0, 131072]\<rparr>"

definition empty_tx_heap :: heap where
  "empty_tx_heap =
     \<lparr>byte_arrays = [[]], tx_arrays = [[Slice 0 0 0]], wd_arrays = [], withdrawal_objs = [],
      bigint_objs = [], uint64_objs = []\<rparr>"

definition scenario_heap_txs :: heap where
  "scenario_heap_txs =
     scenario_heap\<lparr>byte_arrays := [[0xAA], [0xBB], [0x01, 0x02], [0xAA], [0xBB]],
                   tx_arrays := [[Slice 0 0 1, Slice 1 0 1], [Slice 3 0 1, Slice 4 0 1]]\<rparr>"

definition scenario_heap_wds :: heap where
  "scenario_heap_wds = scenario_heap\<lparr>wd_arrays := [[Some 0, None], [Some 0, None]]\<rparr>"

definition empty_tx_heap_txs :: heap where
  "empty_tx_heap_txs = empty_tx_heap\<lparr>tx_arrays := [[Slice 0 0 0], [NilSlice]]\<rparr>"

text \<open>
  A payload over the first memory: its logs bloom is the third byte array, its base fee
  the big integer, its blob gas used the \<^verbatim>\<open>uint64\<close> cell that holds zero.  Then the
  wire payload and the memory that the conversion produces from it.
\<close>

definition scenario_payload :: ExecutableData where
  "scenario_payload = empty_payload
     \<lparr>ed_LogsBloom := Slice 2 0 2, ed_BaseFeePerGas := Some 0, ed_Transactions := Slice 0 0 2,
      ed_Withdrawals := Slice 0 0 2, ed_BlobGasUsed := Some 0, ed_ExcessBlobGas := Some 1\<rparr>"

definition scenario_wire :: RethPayloadV3 where
  "scenario_wire =
     \<lparr>ParentHash = [], FeeRecipient = [], StateRoot = [], ReceiptsRoot = [],
      LogsBloom = Slice 2 0 2, Random = [], Number = 0, GasLimit = 0, GasUsed = 0,
      Timestamp = 0, ExtraData = NilSlice, BaseFeePerGas = Some 1, BlockHash = [],
      Transactions = Slice 1 0 2, Withdrawals = Slice 1 0 2, BlobGasUsed = Some 2,
      ExcessBlobGas = Some 3, ExecutionWitness = None\<rparr>"

definition scenario_heap_conv :: heap where
  "scenario_heap_conv =
     \<lparr>byte_arrays = [[0xAA], [0xBB], [0x01, 0x02], [0xAA], [0xBB]],
      tx_arrays = [[Slice 0 0 1, Slice 1 0 1], [Slice 3 0 1, Slice 4 0 1]],
      wd_arrays = [[Some 0, None], [Some 0, None]],
      withdrawal_objs = [\<lparr>wd_Index = 1, wd_Validator = 2, wd_Address = [], wd_Amount = 3\<rparr>],
      bigint_objs = [7, 7], uint64_objs = [0, 131072, 0, 131072]\<rparr>"

section \<open>The loop of copyTransactions\<close>

lemma slice_ok_append: "slice_ok st s \<Longrightarrow> slice_ok (st @ ys) s"
  by (cases s) (auto simp: nth_append)

lemma read_slice_append: "slice_ok st s \<Longrightarrow> read_slice (st @ ys) s = read_slice st s"
  by (cases s) (auto simp: nth_append)

lemma append_nil_bytes_frame:
  assumes "append_nil_bytes h tx = (v, h1)"
  shows "tx_arrays h1 = tx_arrays h" "wd_arrays h1 = wd_arrays h"
    "withdrawal_objs h1 = withdrawal_objs h" "bigint_objs h1 = bigint_objs h"
    "uint64_objs h1 = uint64_objs h"
  using assms by (auto simp: append_nil_bytes_def Let_def split: if_splits)

lemma append_nil_bytes_result:
  assumes "append_nil_bytes h tx = (v, h1)"
  shows "(v = NilSlice \<and> read_slice (byte_arrays h) tx = [] \<and> byte_arrays h1 = byte_arrays h) \<or>
         (read_slice (byte_arrays h) tx \<noteq> [] \<and>
          v = Slice (length (byte_arrays h)) 0 (length (read_slice (byte_arrays h) tx)) \<and>
          byte_arrays h1 = byte_arrays h @ [read_slice (byte_arrays h) tx])"
  using assms by (auto simp: append_nil_bytes_def Let_def split: if_splits)

lemma append_nil_bytes_prefix:
  assumes "append_nil_bytes h tx = (v, h1)"
  shows "\<exists>ys. byte_arrays h1 = byte_arrays h @ ys"
  using append_nil_bytes_result [OF assms] by auto

lemma store_tx_simps [simp]:
  "byte_arrays (store_tx h c i v) = byte_arrays h"
  "wd_arrays (store_tx h c i v) = wd_arrays h"
  "withdrawal_objs (store_tx h c i v) = withdrawal_objs h"
  "bigint_objs (store_tx h c i v) = bigint_objs h"
  "uint64_objs (store_tx h c i v) = uint64_objs h"
  "length (tx_arrays (store_tx h c i v)) = length (tx_arrays h)"
  by (simp_all add: store_tx_def)

lemma store_tx_other: "b \<noteq> c \<Longrightarrow> tx_arrays (store_tx h c i v) ! b = tx_arrays h ! b"
  by (simp add: store_tx_def)

lemma store_tx_same:
  "c < length (tx_arrays h) \<Longrightarrow> tx_arrays (store_tx h c i v) ! c = (tx_arrays h ! c)[i := v]"
  by (simp add: store_tx_def)

lemma ctl_done: "\<not> i < n \<Longrightarrow> copyTransactions_loop h a off n c i = h"
  by (subst copyTransactions_loop.simps) simp

lemma ctl_skip:
  "i < n \<Longrightarrow> tx_arrays h ! a ! (off + i) = NilSlice \<Longrightarrow>
   copyTransactions_loop h a off n c i = copyTransactions_loop h a off n c (Suc i)"
  by (subst copyTransactions_loop.simps) simp

lemma ctl_step:
  "i < n \<Longrightarrow> tx_arrays h ! a ! (off + i) \<noteq> NilSlice \<Longrightarrow>
   append_nil_bytes h (tx_arrays h ! a ! (off + i)) = (v, h1) \<Longrightarrow>
   copyTransactions_loop h a off n c i =
   copyTransactions_loop (store_tx h1 c i v) a off n c (Suc i)"
  by (subst copyTransactions_loop.simps) simp

lemma ctl_induct [case_names finished skip step]:
  assumes d: "\<And>h i. \<not> i < n \<Longrightarrow> P h i"
    and k: "\<And>h i. i < n \<Longrightarrow> tx_arrays h ! a ! (off + i) = NilSlice \<Longrightarrow> P h (Suc i) \<Longrightarrow> P h i"
    and s: "\<And>h i v h1. i < n \<Longrightarrow> tx_arrays h ! a ! (off + i) \<noteq> NilSlice \<Longrightarrow>
              append_nil_bytes h (tx_arrays h ! a ! (off + i)) = (v, h1) \<Longrightarrow>
              P (store_tx h1 c i v) (Suc i) \<Longrightarrow> P h i"
  shows "P h i"
proof (induction "n - i" arbitrary: h i)
  case 0
  then show ?case using d by simp
next
  case (Suc m)
  then have lt: "i < n" and m: "m = n - Suc i" by simp_all
  show ?case
  proof (cases "tx_arrays h ! a ! (off + i) = NilSlice")
    case True
    then show ?thesis using k [OF lt True] Suc.hyps(1) [OF m] by simp
  next
    case False
    obtain v h1 where e: "append_nil_bytes h (tx_arrays h ! a ! (off + i)) = (v, h1)"
      by (cases "append_nil_bytes h (tx_arrays h ! a ! (off + i))")
    show ?thesis using s [OF lt False e] Suc.hyps(1) [OF m] by simp
  qed
qed

lemma ctl_others:
  "wd_arrays (copyTransactions_loop h a off n c i) = wd_arrays h \<and>
   withdrawal_objs (copyTransactions_loop h a off n c i) = withdrawal_objs h \<and>
   bigint_objs (copyTransactions_loop h a off n c i) = bigint_objs h \<and>
   uint64_objs (copyTransactions_loop h a off n c i) = uint64_objs h \<and>
   length (tx_arrays (copyTransactions_loop h a off n c i)) = length (tx_arrays h)"
proof (induction h i rule: ctl_induct [where n = n and a = a and off = off and c = c])
  case (finished h i)
  then show ?case by (simp add: ctl_done)
next
  case (skip h i)
  then show ?case by (simp add: ctl_skip)
next
  case (step h i v h1)
  then show ?case by (simp add: ctl_step append_nil_bytes_frame)
qed

lemma ctl_tx_frame:
  "c < length (tx_arrays h) \<Longrightarrow>
   (\<forall>b. b \<noteq> c \<longrightarrow> tx_arrays (copyTransactions_loop h a off n c i) ! b = tx_arrays h ! b) \<and>
   length (tx_arrays (copyTransactions_loop h a off n c i) ! c) = length (tx_arrays h ! c) \<and>
   (\<forall>j<i. tx_arrays (copyTransactions_loop h a off n c i) ! c ! j = tx_arrays h ! c ! j)"
proof (induction h i rule: ctl_induct [where n = n and a = a and off = off and c = c])
  case (finished h i)
  then show ?case by (simp add: ctl_done)
next
  case (skip h i)
  then show ?case by (simp add: ctl_skip)
next
  case (step h i v h1)
  have t: "tx_arrays h1 = tx_arrays h" using append_nil_bytes_frame(1) [OF step(3)] .
  have c1: "c < length (tx_arrays h1)" using step.prems t by simp
  have c2: "c < length (tx_arrays (store_tx h1 c i v))" using c1 by simp
  note ih = step.IH [OF c2]
  show ?case
    unfolding ctl_step [OF step(1,2,3)]
    using ih by (simp add: store_tx_other store_tx_same [OF c1] t)
qed

lemma ctl_bytes_prefix:
  "\<exists>ys. byte_arrays (copyTransactions_loop h a off n c i) = byte_arrays h @ ys"
proof (induction h i rule: ctl_induct [where n = n and a = a and off = off and c = c])
  case (finished h i)
  then show ?case by (simp add: ctl_done)
next
  case (skip h i)
  then show ?case by (simp add: ctl_skip)
next
  case (step h i v h1)
  obtain ys where "byte_arrays h1 = byte_arrays h @ ys"
    using append_nil_bytes_prefix [OF step(3)] by blast
  moreover obtain zs where
    "byte_arrays (copyTransactions_loop (store_tx h1 c i v) a off n c (Suc i)) = byte_arrays h1 @ zs"
    using step.IH by auto
  ultimately show ?case unfolding ctl_step [OF step(1,2,3)] by simp
qed

lemma ctl_pre_Suc: "ctl_pre h a off n c i \<Longrightarrow> ctl_pre h a off n c (Suc i)"
  by (simp add: ctl_pre_def)

lemma ctl_pre_step:
  assumes p: "ctl_pre h a off n c i" and e: "append_nil_bytes h tx = (v, h1)"
  shows "ctl_pre (store_tx h1 c i v) a off n c (Suc i)"
proof -
  have t: "tx_arrays h1 = tx_arrays h" using append_nil_bytes_frame(1) [OF e] .
  obtain ys where b: "byte_arrays h1 = byte_arrays h @ ys"
    using append_nil_bytes_prefix [OF e] by blast
  have c1: "c < length (tx_arrays h1)" and ac: "a \<noteq> c" using p t by (simp_all add: ctl_pre_def)
  show ?thesis
    using p unfolding ctl_pre_def
    by (simp add: store_tx_other [OF ac] store_tx_same [OF c1] t b slice_ok_append)
qed

lemma tx_copied_mono:
  assumes "tx_copied (old @ ys) new src dst" and "slice_ok old src"
  shows "tx_copied old new src dst"
  using assms unfolding tx_copied_def by (auto simp: read_slice_append)

lemma tx_copied_fresh:
  assumes "el \<noteq> []" and "new = old @ [el] @ zs" and "read_slice old src = el"
    and "src \<noteq> NilSlice"
  shows "tx_copied old new src (Slice (length old) 0 (length el))"
proof -
  have nth: "new ! length old = el" using assms(2) by simp
  have "length old < length new" using assms(2) by simp
  then show ?thesis unfolding tx_copied_def using nth assms(1,3,4) by auto
qed

lemma ctl_elems:
  "ctl_pre h a off n c i \<Longrightarrow> i \<le> j \<Longrightarrow> j < n \<Longrightarrow>
   tx_copied (byte_arrays h) (byte_arrays (copyTransactions_loop h a off n c i))
     (tx_arrays h ! a ! (off + j)) (tx_arrays (copyTransactions_loop h a off n c i) ! c ! j)"
proof (induction h i rule: ctl_induct [where n = n and a = a and off = off and c = c])
  case (finished h i)
  then show ?case by simp
next
  case (skip h i)
  have ch: "c < length (tx_arrays h)" using skip.prems(1) by (simp add: ctl_pre_def)
  show ?case
  proof (cases "j = i")
    case True
    have "tx_arrays (copyTransactions_loop h a off n c (Suc i)) ! c ! i = tx_arrays h ! c ! i"
      using ctl_tx_frame [OF ch, of a off n "Suc i"] by simp
    also have "\<dots> = NilSlice" using skip.prems by (simp add: ctl_pre_def)
    finally show ?thesis
      unfolding ctl_skip [OF skip(1,2)] using skip(2) True by (simp add: tx_copied_def)
  next
    case False
    then have "Suc i \<le> j" using skip.prems by simp
    then show ?thesis
      unfolding ctl_skip [OF skip(1,2)]
      using skip.IH [OF ctl_pre_Suc [OF skip.prems(1)]] skip.prems(3) by simp
  qed
next
  case (step h i v h1)
  let ?h2 = "store_tx h1 c i v"
  let ?L = "copyTransactions_loop ?h2 a off n c (Suc i)"
  have t: "tx_arrays h1 = tx_arrays h" using append_nil_bytes_frame(1) [OF step(3)] .
  have p2: "ctl_pre ?h2 a off n c (Suc i)" using ctl_pre_step [OF step.prems(1) step(3)] .
  have ch: "c < length (tx_arrays h)" and ac: "a \<noteq> c" and len: "length (tx_arrays h ! c) = n"
    using step.prems(1) by (simp_all add: ctl_pre_def)
  have c1: "c < length (tx_arrays h1)" using ch t by simp
  have c2: "c < length (tx_arrays ?h2)" using c1 by simp
  have src: "tx_arrays ?h2 ! a = tx_arrays h ! a" using ac t by (simp add: store_tx_other)
  obtain zs where zs: "byte_arrays ?L = byte_arrays ?h2 @ zs"
    using ctl_bytes_prefix by blast
  show ?case
  proof (cases "j = i")
    case True
    have "tx_arrays ?L ! c ! i = tx_arrays ?h2 ! c ! i"
      using ctl_tx_frame [OF c2, of a off n "Suc i"] by simp
    also have "\<dots> = v" using step(1) len t by (simp add: store_tx_same [OF c1])
    finally have dst: "tx_arrays ?L ! c ! i = v" .
    let ?src = "tx_arrays h ! a ! (off + i)"
    let ?el = "read_slice (byte_arrays h) ?src"
    have "tx_copied (byte_arrays h) (byte_arrays ?L) ?src v"
    proof (cases "?el = []")
      case True
      then have "v = NilSlice" using append_nil_bytes_result [OF step(3)] by auto
      then show ?thesis using True step(2) by (simp add: tx_copied_def)
    next
      case False
      then have v: "v = Slice (length (byte_arrays h)) 0 (length ?el)"
        and b1: "byte_arrays h1 = byte_arrays h @ [?el]"
        using append_nil_bytes_result [OF step(3)] by auto
      have bl: "byte_arrays ?L = byte_arrays h @ [?el] @ zs" using zs b1 by simp
      have "tx_copied (byte_arrays h) (byte_arrays ?L) ?src
              (Slice (length (byte_arrays h)) 0 (length ?el))"
        using False bl refl step(2) by (rule tx_copied_fresh)
      then show ?thesis using v by simp
    qed
    then show ?thesis
      unfolding ctl_step [OF step(1,2,3)] True dst .
  next
    case False
    then have j: "Suc i \<le> j" using step.prems by simp
    obtain ys where b: "byte_arrays ?h2 = byte_arrays h @ ys"
      using append_nil_bytes_prefix [OF step(3)] by auto
    have ok: "slice_ok (byte_arrays h) (tx_arrays h ! a ! (off + j))"
      using step.prems by (simp add: ctl_pre_def)
    have "tx_copied (byte_arrays ?h2) (byte_arrays ?L) (tx_arrays h ! a ! (off + j))
            (tx_arrays ?L ! c ! j)"
      using step.IH [OF p2 j step.prems(3)] src by simp
    then show ?thesis
      unfolding ctl_step [OF step(1,2,3)] b using ok by (rule tx_copied_mono)
  qed
qed

lemma same_from_nth:
  assumes "same_from k xs ys" and "k \<le> a" and "a < length ys"
  shows "xs ! a = ys ! a"
proof -
  have len: "length xs = length ys" and d: "drop k xs = drop k ys"
    using assms(1) by (simp_all add: same_from_def)
  have "drop k xs ! (a - k) = drop k ys ! (a - k)" by (simp only: d)
  then show ?thesis using assms(2,3) len by simp
qed

lemma same_upto_nth:
  assumes "same_upto k xs ys" and "a < k" and "k \<le> length ys"
  shows "xs ! a = ys ! a"
proof -
  have t: "take k xs = take k ys" using assms(1) by (simp add: same_upto_def)
  have "take k xs ! a = take k ys ! a" by (simp only: t)
  then show ?thesis using assms(2) by simp
qed

lemma snoc_eqI:
  assumes "length ys = Suc (length xs)" and "\<And>b. b < length xs \<Longrightarrow> ys ! b = xs ! b"
  shows "ys = xs @ [ys ! length xs]"
  using assms by (intro nth_equalityI) (auto simp: nth_append less_Suc_eq)

lemma read_slice_length:
  "slice_ok st s \<Longrightarrow> length (read_slice st s) = slice_len s"
  by (cases s) auto

lemma copyTransactions_spec:
  assumes ok: "txs_ok h s" and run: "copyTransactions h s = (r, h')"
  shows "r = Slice (length (tx_arrays h)) 0 (slice_len s) \<and>
         (\<exists>arr. tx_arrays h' = tx_arrays h @ [arr] \<and>
                list_all2 (tx_copied (byte_arrays h) (byte_arrays h'))
                  (read_slice (tx_arrays h) s) arr) \<and>
         (\<exists>ys. byte_arrays h' = byte_arrays h @ ys) \<and>
         wd_arrays h' = wd_arrays h \<and> withdrawal_objs h' = withdrawal_objs h \<and>
         bigint_objs h' = bigint_objs h \<and> uint64_objs h' = uint64_objs h"
proof (cases s)
  case NilSlice
  then show ?thesis using run by (auto simp: copyTransactions_def)
next
  case (Slice a off n)
  let ?c = "length (tx_arrays h)"
  let ?h1 = "h\<lparr>tx_arrays := tx_arrays h @ [replicate n NilSlice]\<rparr>"
  let ?L = "copyTransactions_loop ?h1 a off n ?c 0"
  have r: "r = Slice ?c 0 n" and h': "h' = ?L"
    using run Slice by (simp_all add: copyTransactions_def Let_def)
  have a: "a < ?c" and fit: "off + n \<le> length (tx_arrays h ! a)"
    using ok Slice by (simp_all add: txs_ok_def)
  have els: "\<And>j. j < n \<Longrightarrow> slice_ok (byte_arrays h) (tx_arrays h ! a ! (off + j))"
  proof -
    fix j assume j: "j < n"
    have "list_all (slice_ok (byte_arrays h)) (take n (drop off (tx_arrays h ! a)))"
      using ok Slice by (simp add: txs_ok_def)
    moreover have "j < length (take n (drop off (tx_arrays h ! a)))" using j fit by simp
    ultimately have "slice_ok (byte_arrays h) (take n (drop off (tx_arrays h ! a)) ! j)"
      by (simp add: list_all_length)
    then show "slice_ok (byte_arrays h) (tx_arrays h ! a ! (off + j))" using j fit by simp
  qed
  have pre: "ctl_pre ?h1 a off n ?c 0"
    unfolding ctl_pre_def using a fit els by (auto simp: nth_append)
  have c1: "?c < length (tx_arrays ?h1)" by simp
  note fr = ctl_tx_frame [OF c1, of a off n 0]
  note ot = ctl_others [of ?h1 a off n ?c 0]
  have len: "length (tx_arrays ?L) = Suc ?c" using ot by simp
  have old: "\<And>b. b < ?c \<Longrightarrow> tx_arrays ?L ! b = tx_arrays h ! b"
    using fr by (simp add: nth_append)
  have arr: "tx_arrays ?L = tx_arrays h @ [tx_arrays ?L ! ?c]"
    using len old by (rule snoc_eqI)
  have alen: "length (tx_arrays ?L ! ?c) = n" using fr by simp
  have el: "\<And>j. j < n \<Longrightarrow>
      tx_copied (byte_arrays h) (byte_arrays ?L) (tx_arrays h ! a ! (off + j))
        (tx_arrays ?L ! ?c ! j)"
  proof -
    fix j assume j: "j < n"
    have "tx_copied (byte_arrays ?h1) (byte_arrays ?L) (tx_arrays ?h1 ! a ! (off + j))
            (tx_arrays ?L ! ?c ! j)"
      using pre _ j by (rule ctl_elems) simp
    then show "tx_copied (byte_arrays h) (byte_arrays ?L) (tx_arrays h ! a ! (off + j))
        (tx_arrays ?L ! ?c ! j)"
      using a by (simp add: nth_append)
  qed
  have l2: "list_all2 (tx_copied (byte_arrays h) (byte_arrays ?L))
              (read_slice (tx_arrays h) s) (tx_arrays ?L ! ?c)"
    unfolding list_all2_conv_all_nth using Slice fit alen el by simp
  obtain ys where ys: "byte_arrays ?L = byte_arrays ?h1 @ ys"
    using ctl_bytes_prefix by blast
  have "\<exists>arr. tx_arrays ?L = tx_arrays h @ [arr] \<and>
          list_all2 (tx_copied (byte_arrays h) (byte_arrays ?L)) (read_slice (tx_arrays h) s) arr"
    using arr l2 by blast
  moreover have "\<exists>ys. byte_arrays ?L = byte_arrays h @ ys" using ys by simp
  ultimately show ?thesis
    unfolding h' r using ot Slice by simp
qed

section \<open>The loop of copyWithdrawals\<close>

lemma store_wd_simps [simp]:
  "byte_arrays (store_wd h c i v) = byte_arrays h"
  "tx_arrays (store_wd h c i v) = tx_arrays h"
  "withdrawal_objs (store_wd h c i v) = withdrawal_objs h"
  "bigint_objs (store_wd h c i v) = bigint_objs h"
  "uint64_objs (store_wd h c i v) = uint64_objs h"
  "length (wd_arrays (store_wd h c i v)) = length (wd_arrays h)"
  by (simp_all add: store_wd_def)

lemma store_wd_other: "b \<noteq> c \<Longrightarrow> wd_arrays (store_wd h c i v) ! b = wd_arrays h ! b"
  by (simp add: store_wd_def)

lemma store_wd_same:
  "c < length (wd_arrays h) \<Longrightarrow> wd_arrays (store_wd h c i v) ! c = (wd_arrays h ! c)[i := v]"
  by (simp add: store_wd_def)

lemma cwl_done: "\<not> i < n \<Longrightarrow> copyWithdrawals_loop h a off n c i = h"
  by (subst copyWithdrawals_loop.simps) simp

lemma cwl_skip:
  "i < n \<Longrightarrow> wd_arrays h ! a ! (off + i) = None \<Longrightarrow>
   copyWithdrawals_loop h a off n c i = copyWithdrawals_loop h a off n c (Suc i)"
  by (subst copyWithdrawals_loop.simps) simp

lemma cwl_step:
  "i < n \<Longrightarrow> wd_arrays h ! a ! (off + i) \<noteq> None \<Longrightarrow>
   copyWithdrawals_loop h a off n c i =
   copyWithdrawals_loop (store_wd h c i (wd_arrays h ! a ! (off + i))) a off n c (Suc i)"
  by (subst copyWithdrawals_loop.simps) (simp add: Let_def)

lemma cwl_induct [case_names finished skip step]:
  assumes d: "\<And>h i. \<not> i < n \<Longrightarrow> P h i"
    and k: "\<And>h i. i < n \<Longrightarrow> wd_arrays h ! a ! (off + i) = None \<Longrightarrow> P h (Suc i) \<Longrightarrow> P h i"
    and s: "\<And>h i. i < n \<Longrightarrow> wd_arrays h ! a ! (off + i) \<noteq> None \<Longrightarrow>
              P (store_wd h c i (wd_arrays h ! a ! (off + i))) (Suc i) \<Longrightarrow> P h i"
  shows "P h i"
proof (induction "n - i" arbitrary: h i)
  case 0
  then show ?case using d by simp
next
  case (Suc m)
  then have lt: "i < n" and m: "m = n - Suc i" by simp_all
  show ?case
  proof (cases "wd_arrays h ! a ! (off + i) = None")
    case True
    then show ?thesis using k [OF lt True] Suc.hyps(1) [OF m] by simp
  next
    case False
    show ?thesis using s [OF lt False] Suc.hyps(1) [OF m] by simp
  qed
qed

lemma cwl_others:
  "byte_arrays (copyWithdrawals_loop h a off n c i) = byte_arrays h \<and>
   tx_arrays (copyWithdrawals_loop h a off n c i) = tx_arrays h \<and>
   withdrawal_objs (copyWithdrawals_loop h a off n c i) = withdrawal_objs h \<and>
   bigint_objs (copyWithdrawals_loop h a off n c i) = bigint_objs h \<and>
   uint64_objs (copyWithdrawals_loop h a off n c i) = uint64_objs h \<and>
   length (wd_arrays (copyWithdrawals_loop h a off n c i)) = length (wd_arrays h)"
proof (induction h i rule: cwl_induct [where n = n and a = a and off = off and c = c])
  case (finished h i)
  then show ?case by (simp add: cwl_done)
next
  case (skip h i)
  then show ?case by (simp add: cwl_skip)
next
  case (step h i)
  then show ?case by (simp add: cwl_step)
qed

lemma cwl_frame:
  "c < length (wd_arrays h) \<Longrightarrow>
   (\<forall>b. b \<noteq> c \<longrightarrow> wd_arrays (copyWithdrawals_loop h a off n c i) ! b = wd_arrays h ! b) \<and>
   length (wd_arrays (copyWithdrawals_loop h a off n c i) ! c) = length (wd_arrays h ! c) \<and>
   (\<forall>j<i. wd_arrays (copyWithdrawals_loop h a off n c i) ! c ! j = wd_arrays h ! c ! j)"
proof (induction h i rule: cwl_induct [where n = n and a = a and off = off and c = c])
  case (finished h i)
  then show ?case by (simp add: cwl_done)
next
  case (skip h i)
  then show ?case by (simp add: cwl_skip)
next
  case (step h i)
  let ?h2 = "store_wd h c i (wd_arrays h ! a ! (off + i))"
  have c2: "c < length (wd_arrays ?h2)" using step.prems by simp
  show ?case
    unfolding cwl_step [OF step(1,2)]
    using step.IH [OF c2] by (simp add: store_wd_other store_wd_same [OF step.prems])
qed

lemma cwl_pre_step:
  assumes "cwl_pre h a off n c i"
  shows "cwl_pre (store_wd h c i v) a off n c (Suc i)"
proof -
  have c1: "c < length (wd_arrays h)" and ac: "a \<noteq> c" using assms by (simp_all add: cwl_pre_def)
  show ?thesis
    using assms unfolding cwl_pre_def
    by (simp add: store_wd_other [OF ac] store_wd_same [OF c1])
qed

lemma cwl_elems:
  "cwl_pre h a off n c i \<Longrightarrow> i \<le> j \<Longrightarrow> j < n \<Longrightarrow>
   wd_arrays (copyWithdrawals_loop h a off n c i) ! c ! j = wd_arrays h ! a ! (off + j)"
proof (induction h i rule: cwl_induct [where n = n and a = a and off = off and c = c])
  case (finished h i)
  then show ?case by simp
next
  case (skip h i)
  have ch: "c < length (wd_arrays h)" using skip.prems(1) by (simp add: cwl_pre_def)
  show ?case
  proof (cases "j = i")
    case True
    have "wd_arrays (copyWithdrawals_loop h a off n c (Suc i)) ! c ! i = wd_arrays h ! c ! i"
      using cwl_frame [OF ch, of a off n "Suc i"] by simp
    also have "\<dots> = None" using skip.prems by (simp add: cwl_pre_def)
    finally show ?thesis
      unfolding cwl_skip [OF skip(1,2)] using skip(2) True by simp
  next
    case False
    then have j: "Suc i \<le> j" using skip.prems by simp
    have p: "cwl_pre h a off n c (Suc i)" using skip.prems(1) by (simp add: cwl_pre_def)
    show ?thesis
      unfolding cwl_skip [OF skip(1,2)] using skip.IH [OF p j skip.prems(3)] .
  qed
next
  case (step h i)
  let ?v = "wd_arrays h ! a ! (off + i)"
  let ?h2 = "store_wd h c i ?v"
  let ?L = "copyWithdrawals_loop ?h2 a off n c (Suc i)"
  have ch: "c < length (wd_arrays h)" and ac: "a \<noteq> c" and len: "length (wd_arrays h ! c) = n"
    using step.prems(1) by (simp_all add: cwl_pre_def)
  have c2: "c < length (wd_arrays ?h2)" using ch by simp
  have p2: "cwl_pre ?h2 a off n c (Suc i)" using step.prems(1) by (rule cwl_pre_step)
  have src: "wd_arrays ?h2 ! a = wd_arrays h ! a" using ac by (simp add: store_wd_other)
  show ?case
  proof (cases "j = i")
    case True
    have "wd_arrays ?L ! c ! i = wd_arrays ?h2 ! c ! i"
      using cwl_frame [OF c2, of a off n "Suc i"] by simp
    also have "\<dots> = ?v" using step(1) len by (simp add: store_wd_same [OF ch])
    finally show ?thesis unfolding cwl_step [OF step(1,2)] True .
  next
    case False
    then have j: "Suc i \<le> j" using step.prems by simp
    show ?thesis
      unfolding cwl_step [OF step(1,2)] using step.IH [OF p2 j step.prems(3)] src by simp
  qed
qed

lemma copyWithdrawals_spec:
  assumes ok: "slice_ok (wd_arrays h) s" and run: "copyWithdrawals h s = (r, h')"
  shows "r = Slice (length (wd_arrays h)) 0 (slice_len s) \<and>
         wd_arrays h' = wd_arrays h @ [read_slice (wd_arrays h) s] \<and>
         byte_arrays h' = byte_arrays h \<and> tx_arrays h' = tx_arrays h \<and>
         withdrawal_objs h' = withdrawal_objs h \<and>
         bigint_objs h' = bigint_objs h \<and> uint64_objs h' = uint64_objs h"
proof (cases s)
  case NilSlice
  then show ?thesis using run by (auto simp: copyWithdrawals_def)
next
  case (Slice a off n)
  let ?c = "length (wd_arrays h)"
  let ?h1 = "h\<lparr>wd_arrays := wd_arrays h @ [replicate n None]\<rparr>"
  let ?L = "copyWithdrawals_loop ?h1 a off n ?c 0"
  have r: "r = Slice ?c 0 n" and h': "h' = ?L"
    using run Slice by (simp_all add: copyWithdrawals_def Let_def)
  have a: "a < ?c" and fit: "off + n \<le> length (wd_arrays h ! a)"
    using ok Slice by simp_all
  have pre: "cwl_pre ?h1 a off n ?c 0"
    unfolding cwl_pre_def using a fit by (auto simp: nth_append)
  have c1: "?c < length (wd_arrays ?h1)" by simp
  note fr = cwl_frame [OF c1, of a off n 0]
  note ot = cwl_others [of ?h1 a off n ?c 0]
  have len: "length (wd_arrays ?L) = Suc ?c" using ot by simp
  have old: "\<And>b. b < ?c \<Longrightarrow> wd_arrays ?L ! b = wd_arrays h ! b"
    using fr by (simp add: nth_append)
  have arr: "wd_arrays ?L = wd_arrays h @ [wd_arrays ?L ! ?c]"
    using len old by (rule snoc_eqI)
  have alen: "length (wd_arrays ?L ! ?c) = n" using fr by simp
  have el: "\<And>j. j < n \<Longrightarrow> wd_arrays ?L ! ?c ! j = wd_arrays h ! a ! (off + j)"
  proof -
    fix j assume j: "j < n"
    have "wd_arrays ?L ! ?c ! j = wd_arrays ?h1 ! a ! (off + j)"
      using pre _ j by (rule cwl_elems) simp
    then show "wd_arrays ?L ! ?c ! j = wd_arrays h ! a ! (off + j)"
      using a by (simp add: nth_append)
  qed
  have "wd_arrays ?L ! ?c = read_slice (wd_arrays h) s"
    using Slice fit alen el by (intro nth_equalityI) simp_all
  then have "wd_arrays ?L = wd_arrays h @ [read_slice (wd_arrays h) s]" using arr by simp
  then show ?thesis unfolding h' r using ot Slice by simp
qed

section \<open>The copies\<close>

lemma copyTransactions_scenario:
  "copyTransactions scenario_heap (Slice 0 0 2) = (Slice 1 0 2, scenario_heap_txs)"
  by (simp add: copyTransactions_def scenario_heap_def scenario_heap_txs_def
        copyTransactions_loop.simps append_nil_bytes_def store_tx_def Let_def eval_nat_numeral)

lemma copyTransactions_empty_tx:
  "copyTransactions empty_tx_heap (Slice 0 0 1) = (Slice 1 0 1, empty_tx_heap_txs)"
  by (simp add: copyTransactions_def empty_tx_heap_def empty_tx_heap_txs_def
        copyTransactions_loop.simps append_nil_bytes_def store_tx_def Let_def eval_nat_numeral)

lemma copyWithdrawals_scenario:
  "copyWithdrawals scenario_heap (Slice 0 0 2) = (Slice 1 0 2, scenario_heap_wds)"
  by (simp add: copyWithdrawals_def scenario_heap_def scenario_heap_wds_def
        copyWithdrawals_loop.simps store_wd_def Let_def eval_nat_numeral)

lemma same_from_refl: "same_from k xs xs"
  by (simp add: same_from_def)

lemma tx_copied_read_mutated:
  assumes "tx_copied old new src dst" and "same_from (length old) new2 new"
  shows "read_slice new2 dst = read_slice old src"
proof (cases dst)
  case NilSlice
  then show ?thesis using assms(1) by (simp add: tx_copied_def)
next
  case (Slice b off m)
  then have b: "length old \<le> b" "b < length new" and rd: "read_slice new dst = read_slice old src"
    using assms(1) by (auto simp: tx_copied_def)
  have "new2 ! b = new ! b" using assms(2) b by (rule same_from_nth)
  then show ?thesis using rd Slice by simp
qed

lemma tx_copied_all_read_mutated:
  assumes "list_all2 (tx_copied old new) srcs dsts" and "same_from (length old) new2 new"
  shows "map (read_slice new2) dsts = map (read_slice old) srcs"
  using assms(1)
proof (induction rule: list_all2_induct)
  case Nil
  then show ?case by simp
next
  case (Cons src srcs dst dsts)
  then show ?case using tx_copied_read_mutated [OF Cons.hyps(1) assms(2)] by simp
qed

lemma copyTransactions_contents:
  assumes ok: "txs_ok h s" and run: "copyTransactions h s = (r, h')"
    and sf: "same_from (length (tx_arrays h)) (tx_arrays h2) (tx_arrays h')"
    and sb: "same_from (length (byte_arrays h)) (byte_arrays h2) (byte_arrays h')"
  shows "tx_contents h2 r = tx_contents h s"
proof -
  let ?c = "length (tx_arrays h)"
  obtain arr where r: "r = Slice ?c 0 (slice_len s)"
    and arr: "tx_arrays h' = tx_arrays h @ [arr]"
    and l2: "list_all2 (tx_copied (byte_arrays h) (byte_arrays h')) (read_slice (tx_arrays h) s) arr"
    using copyTransactions_spec [OF ok run] by blast
  have sok: "slice_ok (tx_arrays h) s" using ok by (simp add: txs_ok_def)
  have len: "length arr = slice_len s"
    using list_all2_lengthD [OF l2] read_slice_length [OF sok] by simp
  have "tx_arrays h2 ! ?c = tx_arrays h' ! ?c"
    using sf by (rule same_from_nth) (simp_all add: arr)
  then have at: "tx_arrays h2 ! ?c = arr" by (simp add: arr)
  have "tx_contents h2 r = map (read_slice (byte_arrays h2)) arr"
    unfolding tx_contents_def r using at len by simp
  also have "\<dots> = map (read_slice (byte_arrays h)) (read_slice (tx_arrays h) s)"
    using l2 sb by (rule tx_copied_all_read_mutated)
  finally show ?thesis by (simp add: tx_contents_def)
qed

text \<open>
  Claim C6.  For a well-formed transactions slice, \<^verbatim>\<open>copyTransactions\<close> returns a
  slice that is not nil, on a newly allocated array, of the length of the source (so a nil
  source gives an empty slice that is not nil); the bytes of its transactions are those of
  the source, and they stay so in every memory that differs from the one after the call
  only in storage that existed before the call, that is, whatever the caller writes to
  the source afterwards.
\<close>
theorem copyTransactions_deep_copy:
  assumes "txs_ok h transactions" and "copyTransactions h transactions = (copied, h')"
  shows "copied = Slice (length (tx_arrays h)) 0 (slice_len transactions) \<and>
         tx_contents h' copied = tx_contents h transactions \<and>
         (\<forall>h2. mutated_old h h' h2 \<longrightarrow> tx_contents h2 copied = tx_contents h transactions) \<and>
         (transactions = NilSlice \<longrightarrow> copied \<noteq> NilSlice \<and> slice_len copied = 0)"
proof -
  have r: "copied = Slice (length (tx_arrays h)) 0 (slice_len transactions)"
    using copyTransactions_spec [OF assms] by blast
  have "tx_contents h' copied = tx_contents h transactions"
    using assms same_from_refl same_from_refl by (rule copyTransactions_contents)
  moreover have "\<forall>h2. mutated_old h h' h2 \<longrightarrow> tx_contents h2 copied = tx_contents h transactions"
    using copyTransactions_contents [OF assms] by (simp add: mutated_old_def)
  ultimately show ?thesis using r by simp
qed

theorem copyTransactions_deep_copy_witness:
  "txs_ok scenario_heap (Slice 0 0 2) \<and>
   copyTransactions scenario_heap (Slice 0 0 2) = (Slice 1 0 2, scenario_heap_txs) \<and>
   tx_contents scenario_heap_txs (Slice 1 0 2) = [[0xAA], [0xBB]] \<and>
   tx_contents (scenario_heap_txs\<lparr>byte_arrays := (byte_arrays scenario_heap_txs)[0 := [0xFF]]\<rparr>)
     (Slice 1 0 2) = [[0xAA], [0xBB]]"
proof -
  let ?h2 = "scenario_heap_txs\<lparr>byte_arrays := (byte_arrays scenario_heap_txs)[0 := [0xFF]]\<rparr>"
  have ok: "txs_ok scenario_heap (Slice 0 0 2)"
    by (simp add: txs_ok_def scenario_heap_def)
  have mut: "mutated_old scenario_heap scenario_heap_txs ?h2"
    by (simp add: scenario_heap_txs_def mutated_old_def same_from_def scenario_heap_def)
  have src: "tx_contents scenario_heap (Slice 0 0 2) = [[0xAA], [0xBB]]"
    by (simp add: tx_contents_def scenario_heap_def)
  note t = copyTransactions_deep_copy [OF ok copyTransactions_scenario]
  have a: "tx_contents scenario_heap_txs (Slice 1 0 2) = tx_contents scenario_heap (Slice 0 0 2)"
    using t by blast
  have b: "tx_contents ?h2 (Slice 1 0 2) = tx_contents scenario_heap (Slice 0 0 2)"
    using t mut by blast
  show ?thesis
    using ok copyTransactions_scenario a [unfolded src] b [unfolded src] by blast
qed

text \<open>
  Claim C8.  For a well-formed withdrawals slice, \<^verbatim>\<open>copyWithdrawals\<close> returns a
  slice that is not nil, on the one array the call allocates, of the length of the source
  (so a nil source gives an empty slice that is not nil); its elements are the pointers
  of the source, and no withdrawal record is allocated or changed.
\<close>
theorem copyWithdrawals_copies_pointers:
  assumes "slice_ok (wd_arrays h) withdrawals" and "copyWithdrawals h withdrawals = (copied, h')"
  shows "copied = Slice (length (wd_arrays h)) 0 (slice_len withdrawals) \<and>
         length (wd_arrays h') = Suc (length (wd_arrays h)) \<and>
         read_slice (wd_arrays h') copied = read_slice (wd_arrays h) withdrawals \<and>
         withdrawal_objs h' = withdrawal_objs h \<and>
         (withdrawals = NilSlice \<longrightarrow> copied \<noteq> NilSlice \<and> slice_len copied = 0)"
proof -
  note sp = copyWithdrawals_spec [OF assms]
  have "length (read_slice (wd_arrays h) withdrawals) = slice_len withdrawals"
    using assms(1) by (rule read_slice_length)
  then show ?thesis using sp by simp
qed

theorem copyWithdrawals_copies_pointers_witness:
  "slice_ok (wd_arrays scenario_heap) (Slice 0 0 2) \<and>
   copyWithdrawals scenario_heap (Slice 0 0 2) = (Slice 1 0 2, scenario_heap_wds) \<and>
   read_slice (wd_arrays scenario_heap_wds) (Slice 1 0 2) = [Some 0, None] \<and>
   withdrawal_objs scenario_heap_wds = withdrawal_objs scenario_heap"
proof -
  have ok: "slice_ok (wd_arrays scenario_heap) (Slice 0 0 2)"
    by (simp add: scenario_heap_def)
  have src: "read_slice (wd_arrays scenario_heap) (Slice 0 0 2) = [Some 0, None]"
    by (simp add: scenario_heap_def)
  note t = copyWithdrawals_copies_pointers [OF ok copyWithdrawals_scenario]
  have a: "read_slice (wd_arrays scenario_heap_wds) (Slice 1 0 2) =
           read_slice (wd_arrays scenario_heap) (Slice 0 0 2)"
    using t by blast
  have b: "withdrawal_objs scenario_heap_wds = withdrawal_objs scenario_heap"
    using t by blast
  show ?thesis
    using ok copyWithdrawals_scenario a [unfolded src] b by blast
qed

text \<open>
  Claim C10 says that an element that is not nil is never turned into nil.  A
  transaction that is not nil but has no bytes is copied by
  \<^verbatim>\<open>append([]byte(nil), tx...)\<close>, which returns nil when there is nothing to append:
  the copy of the one-element slice holding such a transaction holds nil.
\<close>
theorem copyTransactions_empty_becomes_nil_counterexample:
  "txs_ok empty_tx_heap (Slice 0 0 1) \<and>
   copyTransactions empty_tx_heap (Slice 0 0 1) = (Slice 1 0 1, empty_tx_heap_txs) \<and>
   read_slice (tx_arrays empty_tx_heap) (Slice 0 0 1) ! 0 \<noteq> NilSlice \<and>
   read_slice (tx_arrays empty_tx_heap_txs) (Slice 1 0 1) ! 0 = NilSlice"
  using copyTransactions_empty_tx
  by (simp add: empty_tx_heap_def empty_tx_heap_txs_def txs_ok_def)

text \<open>
  Claim C10, as the code has it.  In the copy made by \<^verbatim>\<open>copyTransactions\<close> the
  element at an index where the source holds nil is nil, and the element at an index
  where the source holds a transaction of at least one byte is not nil; in the copy made
  by \<^verbatim>\<open>copyWithdrawals\<close> every element is the pointer the source holds at that
  index, nil exactly where the source is nil.
\<close>
theorem copies_preserve_nil_elements:
  assumes "txs_ok h transactions" and "copyTransactions h transactions = (ctx, h1)"
    and "slice_ok (wd_arrays g) withdrawals" and "copyWithdrawals g withdrawals = (cwd, g1)"
  shows "(\<forall>i < slice_len transactions.
            (read_slice (tx_arrays h) transactions ! i = NilSlice \<longrightarrow>
               read_slice (tx_arrays h1) ctx ! i = NilSlice) \<and>
            (0 < slice_len (read_slice (tx_arrays h) transactions ! i) \<longrightarrow>
               read_slice (tx_arrays h1) ctx ! i \<noteq> NilSlice)) \<and>
         (\<forall>i < slice_len withdrawals.
            read_slice (wd_arrays g1) cwd ! i = read_slice (wd_arrays g) withdrawals ! i)"
proof -
  let ?c = "length (tx_arrays h)"
  let ?src = "read_slice (tx_arrays h) transactions"
  obtain arr where r: "ctx = Slice ?c 0 (slice_len transactions)"
    and arr: "tx_arrays h1 = tx_arrays h @ [arr]"
    and l2: "list_all2 (tx_copied (byte_arrays h) (byte_arrays h1)) ?src arr"
    using copyTransactions_spec [OF assms(1,2)] by blast
  have sok: "slice_ok (tx_arrays h) transactions" using assms(1) by (simp add: txs_ok_def)
  have slen: "length ?src = slice_len transactions" using sok by (rule read_slice_length)
  have len: "length arr = slice_len transactions" using list_all2_lengthD [OF l2] slen by simp
  have rd: "read_slice (tx_arrays h1) ctx = arr" unfolding r using arr len by simp
  have tx: "\<forall>i < slice_len transactions.
            (?src ! i = NilSlice \<longrightarrow> arr ! i = NilSlice) \<and>
            (0 < slice_len (?src ! i) \<longrightarrow> arr ! i \<noteq> NilSlice)"
  proof (intro allI impI)
    fix i assume i: "i < slice_len transactions"
    have c: "tx_copied (byte_arrays h) (byte_arrays h1) (?src ! i) (arr ! i)"
      using l2 i slen by (simp add: list_all2_conv_all_nth)
    have "list_all (slice_ok (byte_arrays h)) ?src" using assms(1) by (simp add: txs_ok_def)
    then have "slice_ok (byte_arrays h) (?src ! i)" using i slen by (simp add: list_all_length)
    then have "length (read_slice (byte_arrays h) (?src ! i)) = slice_len (?src ! i)"
      by (rule read_slice_length)
    moreover have "arr ! i = NilSlice \<longrightarrow> read_slice (byte_arrays h) (?src ! i) = []"
      using c by (auto simp: tx_copied_def)
    ultimately show "(?src ! i = NilSlice \<longrightarrow> arr ! i = NilSlice) \<and>
            (0 < slice_len (?src ! i) \<longrightarrow> arr ! i \<noteq> NilSlice)"
      using c by (auto simp: tx_copied_def)
  qed
  note sp = copyWithdrawals_spec [OF assms(3,4)]
  have wlen: "length (read_slice (wd_arrays g) withdrawals) = slice_len withdrawals"
    using assms(3) by (rule read_slice_length)
  have "read_slice (wd_arrays g1) cwd = read_slice (wd_arrays g) withdrawals"
    using sp wlen by simp
  then show ?thesis using tx rd by simp
qed

theorem copies_preserve_nil_elements_witness:
  "txs_ok scenario_heap (Slice 0 0 2) \<and> slice_ok (wd_arrays scenario_heap) (Slice 0 0 2) \<and>
   0 < slice_len (read_slice (tx_arrays scenario_heap) (Slice 0 0 2) ! 0) \<and>
   read_slice (tx_arrays scenario_heap_txs) (Slice 1 0 2) ! 0 \<noteq> NilSlice \<and>
   read_slice (wd_arrays scenario_heap) (Slice 0 0 2) ! 1 = None \<and>
   read_slice (wd_arrays scenario_heap_wds) (Slice 1 0 2) ! 1 = None"
proof -
  have ok: "txs_ok scenario_heap (Slice 0 0 2)"
    by (simp add: txs_ok_def scenario_heap_def)
  have wok: "slice_ok (wd_arrays scenario_heap) (Slice 0 0 2)"
    by (simp add: scenario_heap_def)
  have s0: "0 < slice_len (read_slice (tx_arrays scenario_heap) (Slice 0 0 2) ! 0)"
    and w1: "read_slice (wd_arrays scenario_heap) (Slice 0 0 2) ! 1 = None"
    by (simp_all add: scenario_heap_def)
  have "\<forall>i < 2.
          (0 < slice_len (read_slice (tx_arrays scenario_heap) (Slice 0 0 2) ! i) \<longrightarrow>
             read_slice (tx_arrays scenario_heap_txs) (Slice 1 0 2) ! i \<noteq> NilSlice)"
    and "\<forall>i < 2. read_slice (wd_arrays scenario_heap_wds) (Slice 1 0 2) ! i =
            read_slice (wd_arrays scenario_heap) (Slice 0 0 2) ! i"
    using copies_preserve_nil_elements
      [OF ok copyTransactions_scenario wok copyWithdrawals_scenario]
    by simp_all
  then have "read_slice (tx_arrays scenario_heap_txs) (Slice 1 0 2) ! 0 \<noteq> NilSlice"
    and "read_slice (wd_arrays scenario_heap_wds) (Slice 1 0 2) ! 1 = None"
    using s0 w1 by (auto simp del: read_slice.simps)
  then show ?thesis using ok wok s0 w1 by blast
qed

section \<open>The converter\<close>

lemma copy_bigint_spec:
  assumes "copy_bigint h p = (q, h1)"
  shows "(case p of
            None \<Rightarrow> q = None \<and> bigint_objs h1 = bigint_objs h
          | Some a \<Rightarrow> q = Some (length (bigint_objs h)) \<and>
                      bigint_objs h1 = bigint_objs h @ [bigint_objs h ! a]) \<and>
         byte_arrays h1 = byte_arrays h \<and> tx_arrays h1 = tx_arrays h \<and>
         wd_arrays h1 = wd_arrays h \<and> withdrawal_objs h1 = withdrawal_objs h \<and>
         uint64_objs h1 = uint64_objs h"
  using assms by (auto simp: copy_bigint_def split: option.splits)

lemma copy_uint64_spec:
  assumes "copy_uint64 h p = (q, h1)" and "ptr_ok (uint64_objs h) p"
  shows "(case p of
            None \<Rightarrow> q = None \<and> uint64_objs h1 = uint64_objs h
          | Some a \<Rightarrow> q = Some (length (uint64_objs h)) \<and>
                      uint64_objs h1 = uint64_objs h @ [uint64_objs h ! a]) \<and>
         byte_arrays h1 = byte_arrays h \<and> tx_arrays h1 = tx_arrays h \<and>
         wd_arrays h1 = wd_arrays h \<and> withdrawal_objs h1 = withdrawal_objs h \<and>
         bigint_objs h1 = bigint_objs h"
  using assms by (auto simp: copy_uint64_def Let_def nth_append split: option.splits)

lemma copyTransactions_others:
  assumes "copyTransactions h s = (r, h')"
  shows "wd_arrays h' = wd_arrays h \<and> withdrawal_objs h' = withdrawal_objs h \<and>
         bigint_objs h' = bigint_objs h \<and> uint64_objs h' = uint64_objs h"
proof (cases s)
  case NilSlice
  then show ?thesis using assms by (auto simp: copyTransactions_def)
next
  case (Slice a off n)
  then have "h' = copyTransactions_loop (h\<lparr>tx_arrays := tx_arrays h @ [replicate n NilSlice]\<rparr>)
                    a off n (length (tx_arrays h)) 0"
    using assms by (simp add: copyTransactions_def Let_def)
  then show ?thesis
    using ctl_others [of "h\<lparr>tx_arrays := tx_arrays h @ [replicate n NilSlice]\<rparr>" a off n
        "length (tx_arrays h)" 0]
    by simp
qed

lemma copyWithdrawals_others:
  assumes "copyWithdrawals h s = (r, h')"
  shows "byte_arrays h' = byte_arrays h \<and> tx_arrays h' = tx_arrays h \<and>
         withdrawal_objs h' = withdrawal_objs h \<and>
         bigint_objs h' = bigint_objs h \<and> uint64_objs h' = uint64_objs h"
proof (cases s)
  case NilSlice
  then show ?thesis using assms by (auto simp: copyWithdrawals_def)
next
  case (Slice a off n)
  then have "h' = copyWithdrawals_loop (h\<lparr>wd_arrays := wd_arrays h @ [replicate n None]\<rparr>)
                    a off n (length (wd_arrays h)) 0"
    using assms by (simp add: copyWithdrawals_def Let_def)
  then show ?thesis
    using cwl_others [of "h\<lparr>wd_arrays := wd_arrays h @ [replicate n None]\<rparr>" a off n
        "length (wd_arrays h)" 0]
    by simp
qed

lemma Convert_steps:
  assumes "ConvertExecutableDataToRethPayloadV3 h ed = (w, h')"
  obtains h1 h2 h3 h4 where
    "copy_bigint h (ed_BaseFeePerGas ed) = (BaseFeePerGas w, h1)"
    "copy_uint64 h1 (ed_BlobGasUsed ed) = (BlobGasUsed w, h2)"
    "copy_uint64 h2 (ed_ExcessBlobGas ed) = (ExcessBlobGas w, h3)"
    "copyTransactions h3 (ed_Transactions ed) = (Transactions w, h4)"
    "copyWithdrawals h4 (ed_Withdrawals ed) = (Withdrawals w, h')"
    "LogsBloom w = ed_LogsBloom ed" "ExtraData w = ed_ExtraData ed"
    "ExecutionWitness w = ed_ExecutionWitness ed"
proof -
  obtain q1 h1 where s1: "copy_bigint h (ed_BaseFeePerGas ed) = (q1, h1)"
    by (cases "copy_bigint h (ed_BaseFeePerGas ed)")
  obtain q2 h2 where s2: "copy_uint64 h1 (ed_BlobGasUsed ed) = (q2, h2)"
    by (cases "copy_uint64 h1 (ed_BlobGasUsed ed)")
  obtain q3 h3 where s3: "copy_uint64 h2 (ed_ExcessBlobGas ed) = (q3, h3)"
    by (cases "copy_uint64 h2 (ed_ExcessBlobGas ed)")
  obtain r4 h4 where s4: "copyTransactions h3 (ed_Transactions ed) = (r4, h4)"
    by (cases "copyTransactions h3 (ed_Transactions ed)")
  obtain r5 h5 where s5: "copyWithdrawals h4 (ed_Withdrawals ed) = (r5, h5)"
    by (cases "copyWithdrawals h4 (ed_Withdrawals ed)")
  have "w = \<lparr>ParentHash = ed_ParentHash ed, FeeRecipient = ed_FeeRecipient ed,
           StateRoot = ed_StateRoot ed, ReceiptsRoot = ed_ReceiptsRoot ed,
           LogsBloom = ed_LogsBloom ed, Random = ed_Random ed, Number = ed_Number ed,
           GasLimit = ed_GasLimit ed, GasUsed = ed_GasUsed ed, Timestamp = ed_Timestamp ed,
           ExtraData = ed_ExtraData ed, BaseFeePerGas = q1, BlockHash = ed_BlockHash ed,
           Transactions = r4, Withdrawals = r5, BlobGasUsed = q2, ExcessBlobGas = q3,
           ExecutionWitness = ed_ExecutionWitness ed\<rparr>" and "h' = h5"
    using assms s1 s2 s3 s4 s5
    by (simp_all add: ConvertExecutableDataToRethPayloadV3_def)
  then show ?thesis using that [of h1 h2 h3 h4] s1 s2 s3 s4 s5 by simp
qed

lemma read_slice_same_upto:
  assumes "slice_ok st s" and "same_upto (length st) st2 (st @ ys)"
  shows "read_slice st2 s = read_slice st s"
proof (cases s)
  case NilSlice
  then show ?thesis by simp
next
  case (Slice a off n)
  then have a: "a < length st" using assms(1) by simp
  have "st2 ! a = (st @ ys) ! a" using assms(2) a by (rule same_upto_nth) simp
  then show ?thesis using Slice a by (simp add: nth_append)
qed

lemma tx_contents_same_upto:
  assumes ok: "txs_ok h s"
    and t: "same_upto (length (tx_arrays h)) (tx_arrays h2) (tx_arrays h @ zs)"
    and b: "same_upto (length (byte_arrays h)) (byte_arrays h2) (byte_arrays h @ ys)"
  shows "tx_contents h2 s = tx_contents h s"
proof -
  have sok: "slice_ok (tx_arrays h) s"
    and all: "list_all (slice_ok (byte_arrays h)) (read_slice (tx_arrays h) s)"
    using ok by (simp_all add: txs_ok_def)
  have hd: "read_slice (tx_arrays h2) s = read_slice (tx_arrays h) s"
    using sok t by (rule read_slice_same_upto)
  have "map (read_slice (byte_arrays h2)) (read_slice (tx_arrays h) s) =
        map (read_slice (byte_arrays h)) (read_slice (tx_arrays h) s)"
  proof (rule map_cong [OF refl])
    fix x assume "x \<in> set (read_slice (tx_arrays h) s)"
    then have "slice_ok (byte_arrays h) x" using all by (simp add: list_all_iff)
    then show "read_slice (byte_arrays h2) x = read_slice (byte_arrays h) x"
      using b by (rule read_slice_same_upto)
  qed
  then show ?thesis by (simp add: tx_contents_def hd)
qed

text \<open>
  The byte slices \<^verbatim>\<open>LogsBloom\<close> and \<^verbatim>\<open>ExtraData\<close> and the witness pointer
  are assigned as they are: the wire payload holds the headers of the source.
\<close>

lemma Convert_assigns_directly:
  assumes "ConvertExecutableDataToRethPayloadV3 h ed = (w, h')"
  shows "LogsBloom w = ed_LogsBloom ed \<and> ExtraData w = ed_ExtraData ed \<and>
         ExecutionWitness w = ed_ExecutionWitness ed"
  using Convert_steps [OF assms] by metis

text \<open>
  Claim C7.  Each of the optional fields \<^verbatim>\<open>BaseFeePerGas\<close>, \<^verbatim>\<open>BlobGasUsed\<close> and
  \<^verbatim>\<open>ExcessBlobGas\<close> of the converted payload is nil exactly when it is nil in the
  input; when the input has it, the converted field points to an object allocated by the
  conversion that holds the value of the source, zero included, and the two blob-gas
  fields get two different objects.
\<close>
theorem optional_pointer_fields_reallocated:
  assumes conv: "ConvertExecutableDataToRethPayloadV3 h ed = (w, h')"
    and u1: "ptr_ok (uint64_objs h) (ed_BlobGasUsed ed)"
    and u2: "ptr_ok (uint64_objs h) (ed_ExcessBlobGas ed)"
  shows "(BaseFeePerGas w = None \<longleftrightarrow> ed_BaseFeePerGas ed = None) \<and>
         (BlobGasUsed w = None \<longleftrightarrow> ed_BlobGasUsed ed = None) \<and>
         (ExcessBlobGas w = None \<longleftrightarrow> ed_ExcessBlobGas ed = None) \<and>
         (\<forall>p. ed_BaseFeePerGas ed = Some p \<longrightarrow>
            (\<exists>q. BaseFeePerGas w = Some q \<and> length (bigint_objs h) \<le> q \<and>
                 q < length (bigint_objs h') \<and> bigint_objs h' ! q = bigint_objs h ! p)) \<and>
         (\<forall>p. ed_BlobGasUsed ed = Some p \<longrightarrow>
            (\<exists>q. BlobGasUsed w = Some q \<and> length (uint64_objs h) \<le> q \<and>
                 q < length (uint64_objs h') \<and> uint64_objs h' ! q = uint64_objs h ! p)) \<and>
         (\<forall>p. ed_ExcessBlobGas ed = Some p \<longrightarrow>
            (\<exists>q. ExcessBlobGas w = Some q \<and> length (uint64_objs h) \<le> q \<and>
                 q < length (uint64_objs h') \<and> uint64_objs h' ! q = uint64_objs h ! p \<and>
                 BlobGasUsed w \<noteq> Some q))"
proof -
  obtain h1 h2 h3 h4 where
    s1: "copy_bigint h (ed_BaseFeePerGas ed) = (BaseFeePerGas w, h1)" and
    s2: "copy_uint64 h1 (ed_BlobGasUsed ed) = (BlobGasUsed w, h2)" and
    s3: "copy_uint64 h2 (ed_ExcessBlobGas ed) = (ExcessBlobGas w, h3)" and
    s4: "copyTransactions h3 (ed_Transactions ed) = (Transactions w, h4)" and
    s5: "copyWithdrawals h4 (ed_Withdrawals ed) = (Withdrawals w, h')"
    using conv by (rule Convert_steps)
  note b1 = copy_bigint_spec [OF s1]
  have p2: "ptr_ok (uint64_objs h1) (ed_BlobGasUsed ed)" using u1 b1 by simp
  note b2 = copy_uint64_spec [OF s2 p2]
  have p3: "ptr_ok (uint64_objs h2) (ed_ExcessBlobGas ed)"
    using u2 b2 b1 by (cases "ed_ExcessBlobGas ed"; cases "ed_BlobGasUsed ed") auto
  note b3 = copy_uint64_spec [OF s3 p3]
  note b4 = copyTransactions_others [OF s4]
  note b5 = copyWithdrawals_others [OF s5]
  have big: "bigint_objs h' = bigint_objs h1" using b2 b3 b4 b5 by simp
  have u64: "uint64_objs h' = uint64_objs h3" and u0: "uint64_objs h1 = uint64_objs h"
    using b1 b4 b5 by simp_all
  have A: "(BaseFeePerGas w = None \<longleftrightarrow> ed_BaseFeePerGas ed = None) \<and>
         (\<forall>p. ed_BaseFeePerGas ed = Some p \<longrightarrow>
            (\<exists>q. BaseFeePerGas w = Some q \<and> length (bigint_objs h) \<le> q \<and>
                 q < length (bigint_objs h') \<and> bigint_objs h' ! q = bigint_objs h ! p))"
    using b1 unfolding big by (cases "ed_BaseFeePerGas ed") auto
  have B: "(BlobGasUsed w = None \<longleftrightarrow> ed_BlobGasUsed ed = None) \<and>
         (\<forall>p. ed_BlobGasUsed ed = Some p \<longrightarrow>
            (\<exists>q. BlobGasUsed w = Some q \<and> length (uint64_objs h) \<le> q \<and>
                 q < length (uint64_objs h') \<and> uint64_objs h' ! q = uint64_objs h ! p))"
    using b2 b3 unfolding u64 u0
    by (cases "ed_BlobGasUsed ed"; cases "ed_ExcessBlobGas ed") (auto simp: nth_append)
  have C: "(ExcessBlobGas w = None \<longleftrightarrow> ed_ExcessBlobGas ed = None) \<and>
         (\<forall>p. ed_ExcessBlobGas ed = Some p \<longrightarrow>
            (\<exists>q. ExcessBlobGas w = Some q \<and> length (uint64_objs h) \<le> q \<and>
                 q < length (uint64_objs h') \<and> uint64_objs h' ! q = uint64_objs h ! p \<and>
                 BlobGasUsed w \<noteq> Some q))"
    using b2 b3 u2 unfolding u64 u0
    by (cases "ed_BlobGasUsed ed"; cases "ed_ExcessBlobGas ed") (auto simp: nth_append)
  show ?thesis using A B C by blast
qed

text \<open>
  Claim C2, as the code has it.  The \<^verbatim>\<open>Transactions\<close> and \<^verbatim>\<open>Withdrawals\<close>
  fields of the converted payload do not share backing storage with the input.  In every
  memory that differs from the one after the conversion only in storage that existed
  before it, the converted payload still shows the transactions' bytes and the
  withdrawal pointers the source had at the conversion; and in every memory that differs
  only in storage allocated by the conversion, the source still shows its own.  (The
  withdrawal records themselves are shared: the pointers are the same.)
\<close>
theorem converter_copies_transactions_and_withdrawals_only:
  assumes conv: "ConvertExecutableDataToRethPayloadV3 h ed = (w, h')"
    and tok: "txs_ok h (ed_Transactions ed)"
    and wok: "slice_ok (wd_arrays h) (ed_Withdrawals ed)"
  shows "(\<forall>h2. mutated_old h h' h2 \<longrightarrow>
            tx_contents h2 (Transactions w) = tx_contents h (ed_Transactions ed) \<and>
            read_slice (wd_arrays h2) (Withdrawals w) =
              read_slice (wd_arrays h) (ed_Withdrawals ed)) \<and>
         (\<forall>h2. mutated_new h h' h2 \<longrightarrow>
            tx_contents h2 (ed_Transactions ed) = tx_contents h (ed_Transactions ed) \<and>
            read_slice (wd_arrays h2) (ed_Withdrawals ed) =
              read_slice (wd_arrays h) (ed_Withdrawals ed))"
proof -
  obtain h1 h2 h3 h4 where
    s1: "copy_bigint h (ed_BaseFeePerGas ed) = (BaseFeePerGas w, h1)" and
    s4: "copyTransactions h3 (ed_Transactions ed) = (Transactions w, h4)" and
    s5: "copyWithdrawals h4 (ed_Withdrawals ed) = (Withdrawals w, h')" and
    s2: "copy_uint64 h1 (ed_BlobGasUsed ed) = (BlobGasUsed w, h2)" and
    s3: "copy_uint64 h2 (ed_ExcessBlobGas ed) = (ExcessBlobGas w, h3)"
    using Convert_steps [OF conv] by metis
  have e3: "byte_arrays h3 = byte_arrays h \<and> tx_arrays h3 = tx_arrays h \<and>
            wd_arrays h3 = wd_arrays h"
    using s1 s2 s3
    by (auto simp: copy_bigint_def copy_uint64_def Let_def split: option.splits)
  have tok3: "txs_ok h3 (ed_Transactions ed)" using tok e3 by (simp add: txs_ok_def)
  note t4 = copyTransactions_spec [OF tok3 s4]
  have wok4: "slice_ok (wd_arrays h4) (ed_Withdrawals ed)" using wok t4 e3 by simp
  note t5 = copyWithdrawals_spec [OF wok4 s5]
  let ?src = "read_slice (wd_arrays h) (ed_Withdrawals ed)"
  have wl: "length ?src = slice_len (ed_Withdrawals ed)" using wok by (rule read_slice_length)
  have wd': "wd_arrays h' = wd_arrays h @ [?src]" using t5 t4 e3 by simp
  have wr: "Withdrawals w = Slice (length (wd_arrays h)) 0 (slice_len (ed_Withdrawals ed))"
    using t5 t4 e3 by simp
  obtain arr where tx': "tx_arrays h' = tx_arrays h @ [arr]" using t4 t5 e3 by auto
  obtain ys where by': "byte_arrays h' = byte_arrays h @ ys" using t4 t5 e3 by auto
  have tc3: "tx_contents h3 (ed_Transactions ed) = tx_contents h (ed_Transactions ed)"
    using e3 by (simp add: tx_contents_def)
  have old: "\<forall>g. mutated_old h h' g \<longrightarrow>
            tx_contents g (Transactions w) = tx_contents h (ed_Transactions ed) \<and>
            read_slice (wd_arrays g) (Withdrawals w) = ?src"
  proof (intro allI impI)
    fix g assume m: "mutated_old h h' g"
    have sf: "same_from (length (tx_arrays h3)) (tx_arrays g) (tx_arrays h4)"
      and sb: "same_from (length (byte_arrays h3)) (byte_arrays g) (byte_arrays h4)"
      and sw: "same_from (length (wd_arrays h)) (wd_arrays g) (wd_arrays h')"
      using m t5 e3 by (simp_all add: mutated_old_def)
    have "tx_contents g (Transactions w) = tx_contents h3 (ed_Transactions ed)"
      using tok3 s4 sf sb by (rule copyTransactions_contents)
    moreover have "wd_arrays g ! length (wd_arrays h) = wd_arrays h' ! length (wd_arrays h)"
      using sw by (rule same_from_nth) (simp_all add: wd')
    then have "read_slice (wd_arrays g) (Withdrawals w) = ?src"
      unfolding wr using wl by (simp add: wd')
    ultimately show "tx_contents g (Transactions w) = tx_contents h (ed_Transactions ed) \<and>
            read_slice (wd_arrays g) (Withdrawals w) = ?src"
      using tc3 by simp
  qed
  have new: "\<forall>g. mutated_new h h' g \<longrightarrow>
            tx_contents g (ed_Transactions ed) = tx_contents h (ed_Transactions ed) \<and>
            read_slice (wd_arrays g) (ed_Withdrawals ed) = ?src"
  proof (intro allI impI)
    fix g assume m: "mutated_new h h' g"
    have st: "same_upto (length (tx_arrays h)) (tx_arrays g) (tx_arrays h @ [arr])"
      and sb: "same_upto (length (byte_arrays h)) (byte_arrays g) (byte_arrays h @ ys)"
      and sw: "same_upto (length (wd_arrays h)) (wd_arrays g) (wd_arrays h @ [?src])"
      using m tx' by' wd' by (simp_all add: mutated_new_def)
    show "tx_contents g (ed_Transactions ed) = tx_contents h (ed_Transactions ed) \<and>
            read_slice (wd_arrays g) (ed_Withdrawals ed) = ?src"
      using tx_contents_same_upto [OF tok st sb] read_slice_same_upto [OF wok sw] by simp
  qed
  show ?thesis using old new by blast
qed

lemma Convert_scenario:
  "ConvertExecutableDataToRethPayloadV3 scenario_heap scenario_payload =
     (scenario_wire, scenario_heap_conv)"
  by (simp add: ConvertExecutableDataToRethPayloadV3_def scenario_heap_def scenario_payload_def
        empty_payload_def scenario_wire_def scenario_heap_conv_def copy_bigint_def
        copy_uint64_def copyTransactions_def copyTransactions_loop.simps append_nil_bytes_def
        store_tx_def copyWithdrawals_def copyWithdrawals_loop.simps store_wd_def Let_def
        eval_nat_numeral)

theorem optional_pointer_fields_reallocated_witness:
  "ptr_ok (uint64_objs scenario_heap) (ed_BlobGasUsed scenario_payload) \<and>
   ptr_ok (uint64_objs scenario_heap) (ed_ExcessBlobGas scenario_payload) \<and>
   ed_BlobGasUsed scenario_payload = Some 0 \<and> uint64_objs scenario_heap ! 0 = 0 \<and>
   BlobGasUsed scenario_wire \<noteq> None \<and>
   ed_BlobGasUsed empty_payload = None \<and>
   BlobGasUsed (fst (ConvertExecutableDataToRethPayloadV3 empty_heap empty_payload)) = None"
proof -
  have p1: "ptr_ok (uint64_objs scenario_heap) (ed_BlobGasUsed scenario_payload)"
    and p2: "ptr_ok (uint64_objs scenario_heap) (ed_ExcessBlobGas scenario_payload)"
    and v: "ed_BlobGasUsed scenario_payload = Some 0" "uint64_objs scenario_heap ! 0 = 0"
    by (simp_all add: scenario_heap_def scenario_payload_def)
  have q1: "ptr_ok (uint64_objs empty_heap) (ed_BlobGasUsed empty_payload)"
    and q2: "ptr_ok (uint64_objs empty_heap) (ed_ExcessBlobGas empty_payload)"
    and n: "ed_BlobGasUsed empty_payload = None"
    by (simp_all add: empty_payload_def)
  have run: "ConvertExecutableDataToRethPayloadV3 empty_heap empty_payload =
      (fst (ConvertExecutableDataToRethPayloadV3 empty_heap empty_payload),
       snd (ConvertExecutableDataToRethPayloadV3 empty_heap empty_payload))" by simp
  have a: "BlobGasUsed scenario_wire \<noteq> None"
    using optional_pointer_fields_reallocated [OF Convert_scenario p1 p2] v(1) by simp
  have b: "BlobGasUsed (fst (ConvertExecutableDataToRethPayloadV3 empty_heap empty_payload)) = None"
    using optional_pointer_fields_reallocated [OF run q1 q2] n by simp
  show ?thesis using p1 p2 v a b n by blast
qed

text \<open>
  Claim C2 says that no slice field of the converted payload shares storage with the
  input, \<^verbatim>\<open>LogsBloom\<close> included.  The converter assigns \<^verbatim>\<open>ed.LogsBloom\<close> as it
  is: the wire payload holds the same header, and after a write to the first byte of the
  source's logs bloom the wire payload reads the new byte.
\<close>
theorem converter_shares_logs_bloom_counterexample:
  "ConvertExecutableDataToRethPayloadV3 scenario_heap scenario_payload =
     (scenario_wire, scenario_heap_conv) \<and>
   ed_LogsBloom scenario_payload = Slice 2 0 2 \<and> LogsBloom scenario_wire = Slice 2 0 2 \<and>
   mutated_old scenario_heap scenario_heap_conv
     (scenario_heap_conv\<lparr>byte_arrays := (byte_arrays scenario_heap_conv)[2 := [0xFF, 0x02]]\<rparr>) \<and>
   read_slice (byte_arrays scenario_heap_conv) (LogsBloom scenario_wire) = [0x01, 0x02] \<and>
   read_slice
     (byte_arrays
        (scenario_heap_conv\<lparr>byte_arrays := (byte_arrays scenario_heap_conv)[2 := [0xFF, 0x02]]\<rparr>))
     (LogsBloom scenario_wire) = [0xFF, 0x02]"
  using Convert_scenario
  by (simp add: scenario_payload_def scenario_wire_def scenario_heap_conv_def scenario_heap_def
        mutated_old_def same_from_def)

theorem converter_copies_transactions_and_withdrawals_only_witness:
  "txs_ok scenario_heap (ed_Transactions scenario_payload) \<and>
   slice_ok (wd_arrays scenario_heap) (ed_Withdrawals scenario_payload) \<and>
   tx_contents scenario_heap (ed_Transactions scenario_payload) = [[0xAA], [0xBB]] \<and>
   mutated_old scenario_heap scenario_heap_conv
     (scenario_heap_conv\<lparr>byte_arrays := (byte_arrays scenario_heap_conv)[0 := [0xFF]]\<rparr>) \<and>
   tx_contents
     (scenario_heap_conv\<lparr>byte_arrays := (byte_arrays scenario_heap_conv)[0 := [0xFF]]\<rparr>)
     (Transactions scenario_wire) = [[0xAA], [0xBB]] \<and>
   mutated_new scenario_heap scenario_heap_conv
     (scenario_heap_conv\<lparr>byte_arrays := (byte_arrays scenario_heap_conv)[3 := [0xFF]]\<rparr>) \<and>
   tx_contents
     (scenario_heap_conv\<lparr>byte_arrays := (byte_arrays scenario_heap_conv)[3 := [0xFF]]\<rparr>)
     (ed_Transactions scenario_payload) = [[0xAA], [0xBB]]"
proof -
  let ?g1 = "scenario_heap_conv\<lparr>byte_arrays := (byte_arrays scenario_heap_conv)[0 := [0xFF]]\<rparr>"
  let ?g2 = "scenario_heap_conv\<lparr>byte_arrays := (byte_arrays scenario_heap_conv)[3 := [0xFF]]\<rparr>"
  have tok: "txs_ok scenario_heap (ed_Transactions scenario_payload)"
    and wok: "slice_ok (wd_arrays scenario_heap) (ed_Withdrawals scenario_payload)"
    and src: "tx_contents scenario_heap (ed_Transactions scenario_payload) = [[0xAA], [0xBB]]"
    by (simp_all add: txs_ok_def tx_contents_def scenario_heap_def scenario_payload_def)
  have m1: "mutated_old scenario_heap scenario_heap_conv ?g1"
    by (simp add: scenario_heap_conv_def mutated_old_def same_from_def scenario_heap_def)
  have m2: "mutated_new scenario_heap scenario_heap_conv ?g2"
    by (simp add: scenario_heap_conv_def mutated_new_def same_upto_def scenario_heap_def)
  note t = converter_copies_transactions_and_withdrawals_only [OF Convert_scenario tok wok]
  have a: "tx_contents ?g1 (Transactions scenario_wire) =
           tx_contents scenario_heap (ed_Transactions scenario_payload)"
    using t m1 by blast
  have b: "tx_contents ?g2 (ed_Transactions scenario_payload) =
           tx_contents scenario_heap (ed_Transactions scenario_payload)"
    using t m2 by blast
  show ?thesis using tok wok src m1 m2 a [unfolded src] b [unfolded src] by blast
qed

section \<open>Status reconciliation\<close>

lemma isStatusOk_NewPayloadV3_iff:
  "isStatusOk_NewPayloadV3 st \<longleftrightarrow> Status st \<in> {VALID, INVALID, SYNCING, ACCEPTED}"
  by (simp add: isStatusOk_NewPayloadV3_def map_index_def VALID_def INVALID_def SYNCING_def ACCEPTED_def)

lemma isStatusOk_ForkchoiceUpdatedV3_iff:
  "isStatusOk_ForkchoiceUpdatedV3 r \<longleftrightarrow> Status (PayloadStatus r) \<in> {VALID, INVALID, SYNCING}"
  by (simp add: isStatusOk_ForkchoiceUpdatedV3_def map_index_def VALID_def INVALID_def SYNCING_def ACCEPTED_def)

lemma NewPayloadV3_result:
  assumes "call newPayloadV3 (snd (ConvertExecutableDataToRethPayloadV3 h params))
             (fst (ConvertExecutableDataToRethPayloadV3 h params)) vh br = (resp, err)"
  shows "fst (NewPayloadV3 chain call h params vh br) =
           (if isStatusOk_NewPayloadV3 resp then (resp, None)
            else (PayloadStatusV1_zero,
                  Some (case err of
                          Some e \<Rightarrow> Wrap e ''rpc new payload'' []
                        | None \<Rightarrow> New ''nil error and unknown status'' [(''status'', Status resp)])))"
  using assms
  by (cases "ConvertExecutableDataToRethPayloadV3 h params")
     (simp add: NewPayloadV3_def Let_def split: option.splits)

lemma NewPayloadV3_logged:
  assumes "call newPayloadV3 (snd (ConvertExecutableDataToRethPayloadV3 h params))
             (fst (ConvertExecutableDataToRethPayloadV3 h params)) vh br = (resp, err)"
  shows "logged_errors (fst (snd (NewPayloadV3 chain call h params vh br))) =
           (if isStatusOk_NewPayloadV3 resp then (case err of None \<Rightarrow> [] | Some e \<Rightarrow> [e]) else [])"
  using assms
  by (cases "ConvertExecutableDataToRethPayloadV3 h params")
     (simp add: NewPayloadV3_def Let_def split: option.splits)

lemma ForkchoiceUpdatedV3_result:
  assumes "call forkchoiceUpdatedV3 update pa = (resp, err)"
  shows "fst (ForkchoiceUpdatedV3 chain call update pa) =
           (if isStatusOk_ForkchoiceUpdatedV3 resp then (resp, None)
            else (ForkChoiceResponse_zero,
                  Some (case err of
                          Some e \<Rightarrow> Wrap e ''rpc forkchoice updated v3'' []
                        | None \<Rightarrow> New ''nil error and unknown status''
                                    [(''status'', Status (PayloadStatus resp))])))"
  using assms by (simp add: ForkchoiceUpdatedV3_def Let_def split: option.splits)

lemma ForkchoiceUpdatedV3_logged:
  assumes "call forkchoiceUpdatedV3 update pa = (resp, err)"
  shows "logged_errors (snd (ForkchoiceUpdatedV3 chain call update pa)) =
           (if isStatusOk_ForkchoiceUpdatedV3 resp then (case err of None \<Rightarrow> [] | Some e \<Rightarrow> [e]) else [])"
  using assms by (simp add: ForkchoiceUpdatedV3_def Let_def split: option.splits)

text \<open>
  Claim C1.  When the response that the transport leaves behind carries a status of the
  call's valid domain (VALID, INVALID, SYNCING or ACCEPTED for \<^verbatim>\<open>NewPayloadV3\<close>;
  VALID, INVALID or SYNCING for \<^verbatim>\<open>ForkchoiceUpdatedV3\<close>), the call returns that
  response with a nil error, whatever error the transport returned; a transport error
  that is not nil shows up in the log, once, and nowhere in the result.
\<close>
theorem in_domain_status_succeeds:
  assumes "call_np newPayloadV3 (snd (ConvertExecutableDataToRethPayloadV3 h params))
             (fst (ConvertExecutableDataToRethPayloadV3 h params)) vh br = (resp, err)"
    and "call_fc forkchoiceUpdatedV3 update pa = (fresp, ferr)"
  shows "(Status resp \<in> {VALID, INVALID, SYNCING, ACCEPTED} \<longrightarrow>
            fst (NewPayloadV3 chain call_np h params vh br) = (resp, None) \<and>
            logged_errors (fst (snd (NewPayloadV3 chain call_np h params vh br))) =
              (case err of None \<Rightarrow> [] | Some e \<Rightarrow> [e])) \<and>
         (Status (PayloadStatus fresp) \<in> {VALID, INVALID, SYNCING} \<longrightarrow>
            fst (ForkchoiceUpdatedV3 chain call_fc update pa) = (fresp, None) \<and>
            logged_errors (snd (ForkchoiceUpdatedV3 chain call_fc update pa)) =
              (case ferr of None \<Rightarrow> [] | Some e \<Rightarrow> [e]))"
  using assms
    NewPayloadV3_result [of call_np h params vh br resp err chain]
    NewPayloadV3_logged [of call_np h params vh br resp err chain]
    ForkchoiceUpdatedV3_result [of call_fc update pa fresp ferr chain]
    ForkchoiceUpdatedV3_logged [of call_fc update pa fresp ferr chain]
  by (simp add: isStatusOk_NewPayloadV3_iff isStatusOk_ForkchoiceUpdatedV3_iff)

theorem in_domain_status_succeeds_witness:
  "fst (NewPayloadV3 ''omni_evm'' (\<lambda>m h p v b. (status_only ''SYNCING'', Some (Rpc ''boom'')))
          empty_heap empty_payload [] None) = (status_only ''SYNCING'', None) \<and>
   logged_errors (fst (snd (NewPayloadV3 ''omni_evm''
          (\<lambda>m h p v b. (status_only ''SYNCING'', Some (Rpc ''boom'')))
          empty_heap empty_payload [] None))) = [Rpc ''boom''] \<and>
   fst (ForkchoiceUpdatedV3 ''omni_evm'' (\<lambda>m u a. (fc_status_only ''VALID'', Some (Rpc ''boom'')))
          zero_state (None :: unit option)) = (fc_status_only ''VALID'', None) \<and>
   logged_errors (snd (ForkchoiceUpdatedV3 ''omni_evm''
          (\<lambda>m u a. (fc_status_only ''VALID'', Some (Rpc ''boom''))) zero_state (None :: unit option))) =
     [Rpc ''boom'']"
  using in_domain_status_succeeds
    [of "\<lambda>m h p v b. (status_only ''SYNCING'', Some (Rpc ''boom''))" empty_heap empty_payload
        "[]" None "status_only ''SYNCING''" "Some (Rpc ''boom'')"
        "\<lambda>m u a. (fc_status_only ''VALID'', Some (Rpc ''boom''))" zero_state "None :: unit option"
        "fc_status_only ''VALID''" "Some (Rpc ''boom'')" "''omni_evm''"]
  by (simp add: status_only_def fc_status_only_def VALID_def INVALID_def SYNCING_def ACCEPTED_def)


lemma GetPayloadV3_result:
  assumes "call getPayloadV3 payloadID = (resp, err)"
  shows "fst (GetPayloadV3 chain call payloadID) =
           (case err of
              None \<Rightarrow> (Some resp, None)
            | Some e \<Rightarrow> (None, Some (Wrap e ''rpc get payload v3'' [])))"
  using assms by (simp add: GetPayloadV3_def Let_def split: option.splits)

text \<open>
  Claim C3.  When the status is outside the call's valid domain and the transport error
  is nil, the call fails with the error "nil error and unknown status", which records
  the status; this error differs from the one the same call returns when the status is
  outside the domain and the transport error is not nil.  ACCEPTED is such a status for
  \<^verbatim>\<open>ForkchoiceUpdatedV3\<close>.
\<close>
theorem out_of_domain_nil_error_is_protocol_violation:
  assumes "call_np newPayloadV3 (snd (ConvertExecutableDataToRethPayloadV3 h params))
             (fst (ConvertExecutableDataToRethPayloadV3 h params)) vh br = (resp, None)"
    and "call_fc forkchoiceUpdatedV3 update pa = (fresp, None)"
    and "call_np' newPayloadV3 (snd (ConvertExecutableDataToRethPayloadV3 h params))
             (fst (ConvertExecutableDataToRethPayloadV3 h params)) vh br = (resp', Some e)"
    and "call_fc' forkchoiceUpdatedV3 update pa = (fresp', Some e)"
  shows "(Status resp \<notin> {VALID, INVALID, SYNCING, ACCEPTED} \<longrightarrow>
            snd (fst (NewPayloadV3 chain call_np h params vh br)) =
              Some (New ''nil error and unknown status'' [(''status'', Status resp)]) \<and>
            (Status resp' \<notin> {VALID, INVALID, SYNCING, ACCEPTED} \<longrightarrow>
               snd (fst (NewPayloadV3 chain call_np h params vh br)) \<noteq>
               snd (fst (NewPayloadV3 chain call_np' h params vh br)))) \<and>
         (Status (PayloadStatus fresp) \<notin> {VALID, INVALID, SYNCING} \<longrightarrow>
            snd (fst (ForkchoiceUpdatedV3 chain call_fc update pa)) =
              Some (New ''nil error and unknown status''
                      [(''status'', Status (PayloadStatus fresp))]) \<and>
            (Status (PayloadStatus fresp') \<notin> {VALID, INVALID, SYNCING} \<longrightarrow>
               snd (fst (ForkchoiceUpdatedV3 chain call_fc update pa)) \<noteq>
               snd (fst (ForkchoiceUpdatedV3 chain call_fc' update pa))))"
  using assms
    NewPayloadV3_result [of call_np h params vh br resp None chain]
    NewPayloadV3_result [of call_np' h params vh br resp' "Some e" chain]
    ForkchoiceUpdatedV3_result [of call_fc update pa fresp None chain]
    ForkchoiceUpdatedV3_result [of call_fc' update pa fresp' "Some e" chain]
  by (simp add: isStatusOk_NewPayloadV3_iff isStatusOk_ForkchoiceUpdatedV3_iff)

theorem out_of_domain_nil_error_is_protocol_violation_witness:
  "snd (fst (NewPayloadV3 ''omni_evm'' (\<lambda>m h p v b. (status_only ''BOGUS'', None))
          empty_heap empty_payload [] None)) =
     Some (New ''nil error and unknown status'' [(''status'', ''BOGUS'')]) \<and>
   snd (fst (NewPayloadV3 ''omni_evm'' (\<lambda>m h p v b. (status_only ''BOGUS'', None))
          empty_heap empty_payload [] None)) \<noteq>
   snd (fst (NewPayloadV3 ''omni_evm'' (\<lambda>m h p v b. (status_only [], Some (Rpc ''boom'')))
          empty_heap empty_payload [] None)) \<and>
   snd (fst (ForkchoiceUpdatedV3 ''omni_evm'' (\<lambda>m u a. (fc_status_only ''ACCEPTED'', None))
          zero_state (None :: unit option))) =
     Some (New ''nil error and unknown status'' [(''status'', ''ACCEPTED'')]) \<and>
   snd (fst (ForkchoiceUpdatedV3 ''omni_evm'' (\<lambda>m u a. (fc_status_only ''ACCEPTED'', None))
          zero_state (None :: unit option))) \<noteq>
   snd (fst (ForkchoiceUpdatedV3 ''omni_evm''
          (\<lambda>m u a. (fc_status_only ''ACCEPTED'', Some (Rpc ''boom''))) zero_state
          (None :: unit option)))"
proof -
  have s1: "Status (status_only ''BOGUS'') \<notin> {VALID, INVALID, SYNCING, ACCEPTED}"
    and s2: "Status (status_only []) \<notin> {VALID, INVALID, SYNCING, ACCEPTED}"
    and s3: "Status (PayloadStatus (fc_status_only ''ACCEPTED'')) \<notin> {VALID, INVALID, SYNCING}"
    and s4: "Status (status_only ''BOGUS'') = ''BOGUS''"
    and s5: "Status (PayloadStatus (fc_status_only ''ACCEPTED'')) = ''ACCEPTED''"
    by (simp_all add: status_only_def fc_status_only_def VALID_def INVALID_def SYNCING_def
          ACCEPTED_def)
  show ?thesis
    using out_of_domain_nil_error_is_protocol_violation
      [of "\<lambda>m h p v b. (status_only ''BOGUS'', None)" empty_heap empty_payload "[]" None
          "status_only ''BOGUS''"
          "\<lambda>m u a. (fc_status_only ''ACCEPTED'', None)" zero_state "None :: unit option"
          "fc_status_only ''ACCEPTED''"
          "\<lambda>m h p v b. (status_only [], Some (Rpc ''boom''))" "status_only []" "Rpc ''boom''"
          "\<lambda>m u a. (fc_status_only ''ACCEPTED'', Some (Rpc ''boom''))"
          "fc_status_only ''ACCEPTED''" "''omni_evm''"]
      s1 s2 s3
    unfolding s4 s5 by blast
qed

text \<open>
  Claim C4 says that the wrapped transport error is annotated with the out-of-domain
  status.  For the status BOGUS and the transport error "boom", \<^verbatim>\<open>NewPayloadV3\<close>
  returns the transport error wrapped under the message "rpc new payload" with no
  attribute at all: the status is not among the attributes of the error.
\<close>
theorem wrapped_error_status_annotation_counterexample:
  "snd (fst (NewPayloadV3 ''omni_evm'' (\<lambda>m h p v b. (status_only ''BOGUS'', Some (Rpc ''boom'')))
          empty_heap empty_payload [] None)) = Some (Wrap (Rpc ''boom'') ''rpc new payload'' []) \<and>
   Status (status_only ''BOGUS'') \<notin> {VALID, INVALID, SYNCING, ACCEPTED} \<and>
   ''BOGUS'' \<notin> snd ` set (attrs_of (Wrap (Rpc ''boom'') ''rpc new payload'' []))"
  using NewPayloadV3_result
    [of "\<lambda>m h p v b. (status_only ''BOGUS'', Some (Rpc ''boom''))" empty_heap empty_payload "[]" None
        "status_only ''BOGUS''" "Some (Rpc ''boom'')" "''omni_evm''"]
  by (simp add: isStatusOk_NewPayloadV3_iff status_only_def VALID_def INVALID_def SYNCING_def
        ACCEPTED_def)

text \<open>
  Claim C4, as the code has it.  When the status is outside the call's valid domain and
  the transport error is not nil, \<^verbatim>\<open>NewPayloadV3\<close> and \<^verbatim>\<open>ForkchoiceUpdatedV3\<close>
  fail with the transport error wrapped under a fixed message ("rpc new payload",
  "rpc forkchoice updated v3"); the wrapper adds no attribute, so the error carries the
  attributes of the transport error and nothing about the status.
\<close>
theorem out_of_domain_transport_error_is_wrapped:
  assumes "call_np newPayloadV3 (snd (ConvertExecutableDataToRethPayloadV3 h params))
             (fst (ConvertExecutableDataToRethPayloadV3 h params)) vh br = (resp, Some e)"
    and "call_fc forkchoiceUpdatedV3 update pa = (fresp, Some e')"
  shows "(Status resp \<notin> {VALID, INVALID, SYNCING, ACCEPTED} \<longrightarrow>
            snd (fst (NewPayloadV3 chain call_np h params vh br)) =
              Some (Wrap e ''rpc new payload'' [])) \<and>
         (Status (PayloadStatus fresp) \<notin> {VALID, INVALID, SYNCING} \<longrightarrow>
            snd (fst (ForkchoiceUpdatedV3 chain call_fc update pa)) =
              Some (Wrap e' ''rpc forkchoice updated v3'' [])) \<and>
         attrs_of (Wrap e ''rpc new payload'' []) = attrs_of e \<and>
         attrs_of (Wrap e' ''rpc forkchoice updated v3'' []) = attrs_of e'"
  using assms
    NewPayloadV3_result [of call_np h params vh br resp "Some e" chain]
    ForkchoiceUpdatedV3_result [of call_fc update pa fresp "Some e'" chain]
  by (simp add: isStatusOk_NewPayloadV3_iff isStatusOk_ForkchoiceUpdatedV3_iff)

theorem out_of_domain_transport_error_is_wrapped_witness:
  "snd (fst (NewPayloadV3 ''omni_evm'' (\<lambda>m h p v b. (status_only ''BOGUS'', Some (Rpc ''boom'')))
          empty_heap empty_payload [] None)) = Some (Wrap (Rpc ''boom'') ''rpc new payload'' []) \<and>
   snd (fst (ForkchoiceUpdatedV3 ''omni_evm''
          (\<lambda>m u a. (fc_status_only ''ACCEPTED'', Some (Rpc ''refused''))) zero_state
          (None :: unit option))) = Some (Wrap (Rpc ''refused'') ''rpc forkchoice updated v3'' [])"
  using out_of_domain_transport_error_is_wrapped
    [of "\<lambda>m h p v b. (status_only ''BOGUS'', Some (Rpc ''boom''))" empty_heap empty_payload "[]" None
        "status_only ''BOGUS''" "Rpc ''boom''"
        "\<lambda>m u a. (fc_status_only ''ACCEPTED'', Some (Rpc ''refused''))" zero_state
        "None :: unit option" "fc_status_only ''ACCEPTED''" "Rpc ''refused''" "''omni_evm''"]
  by (simp add: status_only_def fc_status_only_def VALID_def INVALID_def SYNCING_def ACCEPTED_def)

text \<open>
  Claim C5.  \<^verbatim>\<open>GetPayloadV3\<close> succeeds, with a pointer to the decoded envelope,
  exactly when the transport error is nil; with a transport error it returns a nil
  pointer and the wrapped error, whatever was decoded.
\<close>
theorem GetPayloadV3_succeeds_iff_no_transport_error:
  assumes "call getPayloadV3 payloadID = (resp, err)"
  shows "(err = None \<longrightarrow> fst (GetPayloadV3 chain call payloadID) = (Some resp, None)) \<and>
         (\<forall>e. err = Some e \<longrightarrow>
            fst (GetPayloadV3 chain call payloadID) =
              (None, Some (Wrap e ''rpc get payload v3'' []))) \<and>
         (snd (fst (GetPayloadV3 chain call payloadID)) = None \<longleftrightarrow> err = None)"
  using GetPayloadV3_result [of call payloadID resp err chain] assms
  by (cases err) simp_all

theorem GetPayloadV3_succeeds_iff_no_transport_error_witness:
  "fst (GetPayloadV3 ''omni_evm'' (\<lambda>m i. (''envelope'', None)) [1, 2, 3, 4, 5, 6, 7, 8]) =
     (Some ''envelope'', None) \<and>
   fst (GetPayloadV3 ''omni_evm'' (\<lambda>m i. (''partial'', Some (Rpc ''timeout'')))
          [1, 2, 3, 4, 5, 6, 7, 8]) = (None, Some (Wrap (Rpc ''timeout'') ''rpc get payload v3'' []))"
  using GetPayloadV3_succeeds_iff_no_transport_error
    [of "\<lambda>m i. (''envelope'', None)" "[1, 2, 3, 4, 5, 6, 7, 8]" "''envelope''" None "''omni_evm''"]
    GetPayloadV3_succeeds_iff_no_transport_error
    [of "\<lambda>m i. (''partial'', Some (Rpc ''timeout''))" "[1, 2, 3, 4, 5, 6, 7, 8]" "''partial''"
        "Some (Rpc ''timeout'')" "''omni_evm''"]
  by simp

text \<open>
  Claim C9 ends by saying that a caller who observes an error never observes decoded
  response content.  When the transport error is nil and the status is outside the
  domain, the error is built by \<^verbatim>\<open>errors.New("nil error and unknown status", "status",
  resp.Status)\<close>: for the decoded status ACCEPTED on \<^verbatim>\<open>ForkchoiceUpdatedV3\<close>, and
  for the decoded status BOGUS on \<^verbatim>\<open>NewPayloadV3\<close>, the response returned is the
  zero value and the error returned carries the decoded status as its attribute.
\<close>
theorem failure_error_carries_decoded_status_counterexample:
  "fst (ForkchoiceUpdatedV3 ''omni_evm'' (\<lambda>m u a. (fc_status_only ''ACCEPTED'', None))
          zero_state (None :: unit option)) =
     (ForkChoiceResponse_zero,
      Some (New ''nil error and unknown status'' [(''status'', ''ACCEPTED'')])) \<and>
   Status (PayloadStatus (fc_status_only ''ACCEPTED'')) = ''ACCEPTED'' \<and>
   (''status'', ''ACCEPTED'') \<in>
     set (attrs_of (New ''nil error and unknown status'' [(''status'', ''ACCEPTED'')])) \<and>
   fst (NewPayloadV3 ''omni_evm'' (\<lambda>m h p v b. (status_only ''BOGUS'', None))
          empty_heap empty_payload [] None) =
     (PayloadStatusV1_zero,
      Some (New ''nil error and unknown status'' [(''status'', ''BOGUS'')])) \<and>
   Status (status_only ''BOGUS'') = ''BOGUS'' \<and>
   (''status'', ''BOGUS'') \<in>
     set (attrs_of (New ''nil error and unknown status'' [(''status'', ''BOGUS'')]))"
  using ForkchoiceUpdatedV3_result
      [of "\<lambda>m u a. (fc_status_only ''ACCEPTED'', None)" zero_state "None :: unit option"
          "fc_status_only ''ACCEPTED''" None "''omni_evm''"]
    NewPayloadV3_result
      [of "\<lambda>m h p v b. (status_only ''BOGUS'', None)" empty_heap empty_payload "[]" None
          "status_only ''BOGUS''" None "''omni_evm''"]
  by (simp add: isStatusOk_NewPayloadV3_iff isStatusOk_ForkchoiceUpdatedV3_iff status_only_def
        fc_status_only_def VALID_def INVALID_def SYNCING_def ACCEPTED_def)

text \<open>
  Claim C9, as the code has it.  Whenever \<^verbatim>\<open>NewPayloadV3\<close> or
  \<^verbatim>\<open>ForkchoiceUpdatedV3\<close> returns an error, the response it returns with it is the
  zero value, not what was decoded, and an out-of-domain status always ends in an error.
  Of the decoded response the caller of a failed call sees the status string and nothing
  else: when the transport error is nil the error returned is "nil error and unknown
  status" with the decoded status as its one attribute, and when the transport error is
  not nil the error returned is that error wrapped, with no attribute added.
\<close>
theorem failure_returns_zero_value_and_status_in_error:
  "(snd (fst (NewPayloadV3 chain call_np h params vh br)) \<noteq> None \<longrightarrow>
      fst (fst (NewPayloadV3 chain call_np h params vh br)) = PayloadStatusV1_zero) \<and>
   (snd (fst (ForkchoiceUpdatedV3 chain call_fc update pa)) \<noteq> None \<longrightarrow>
      fst (fst (ForkchoiceUpdatedV3 chain call_fc update pa)) = ForkChoiceResponse_zero) \<and>
   (\<not> isStatusOk_NewPayloadV3
        (fst (call_np newPayloadV3 (snd (ConvertExecutableDataToRethPayloadV3 h params))
               (fst (ConvertExecutableDataToRethPayloadV3 h params)) vh br)) \<longrightarrow>
      snd (fst (NewPayloadV3 chain call_np h params vh br)) =
        Some (case snd (call_np newPayloadV3
                          (snd (ConvertExecutableDataToRethPayloadV3 h params))
                          (fst (ConvertExecutableDataToRethPayloadV3 h params)) vh br) of
                Some e \<Rightarrow> Wrap e ''rpc new payload'' []
              | None \<Rightarrow>
                  New ''nil error and unknown status''
                    [(''status'',
                      Status (fst (call_np newPayloadV3
                                     (snd (ConvertExecutableDataToRethPayloadV3 h params))
                                     (fst (ConvertExecutableDataToRethPayloadV3 h params))
                                     vh br)))])) \<and>
   (\<not> isStatusOk_ForkchoiceUpdatedV3 (fst (call_fc forkchoiceUpdatedV3 update pa)) \<longrightarrow>
      snd (fst (ForkchoiceUpdatedV3 chain call_fc update pa)) =
        Some (case snd (call_fc forkchoiceUpdatedV3 update pa) of
                Some e \<Rightarrow> Wrap e ''rpc forkchoice updated v3'' []
              | None \<Rightarrow>
                  New ''nil error and unknown status''
                    [(''status'',
                      Status (PayloadStatus (fst (call_fc forkchoiceUpdatedV3 update pa))))]))"
proof -
  obtain resp err where np:
    "call_np newPayloadV3 (snd (ConvertExecutableDataToRethPayloadV3 h params))
       (fst (ConvertExecutableDataToRethPayloadV3 h params)) vh br = (resp, err)"
    by (cases "call_np newPayloadV3 (snd (ConvertExecutableDataToRethPayloadV3 h params))
       (fst (ConvertExecutableDataToRethPayloadV3 h params)) vh br")
  obtain fresp ferr where fc: "call_fc forkchoiceUpdatedV3 update pa = (fresp, ferr)"
    by (cases "call_fc forkchoiceUpdatedV3 update pa")
  show ?thesis
    using NewPayloadV3_result [of call_np h params vh br resp err chain]
      ForkchoiceUpdatedV3_result [of call_fc update pa fresp ferr chain] np fc
    by (cases err; cases ferr) simp_all
qed

theorem failure_returns_zero_value_and_status_in_error_witness:
  "fst (NewPayloadV3 ''omni_evm''
          (\<lambda>m h p v b. (\<lparr>Status = ''BOGUS'', LatestValidHash = Some [1], ValidationError = Some ''x''\<rparr>,
                         Some (Rpc ''boom'')))
          empty_heap empty_payload [] None) =
     (PayloadStatusV1_zero, Some (Wrap (Rpc ''boom'') ''rpc new payload'' [])) \<and>
   fst (ForkchoiceUpdatedV3 ''omni_evm''
          (\<lambda>m u a. (\<lparr>PayloadStatus = status_only ''ACCEPTED'', PayloadID = Some [7]\<rparr>, None))
          zero_state (None :: unit option)) =
     (ForkChoiceResponse_zero,
      Some (New ''nil error and unknown status'' [(''status'', ''ACCEPTED'')]))"
proof -
  let ?np = "\<lambda>(m::string) (h::heap) (p::RethPayloadV3) (v::hash list) (b::hash option).
      (\<lparr>Status = ''BOGUS'', LatestValidHash = Some [1::byte], ValidationError = Some ''x''\<rparr>,
       Some (Rpc ''boom''))"
  let ?fc = "\<lambda>(m::string) (u::ForkchoiceStateV1) (a::unit option).
      (\<lparr>PayloadStatus = status_only ''ACCEPTED'', PayloadID = Some [7::byte]\<rparr>, None::error option)"
  have n1: "\<not> isStatusOk_NewPayloadV3
      \<lparr>Status = ''BOGUS'', LatestValidHash = Some [1::byte], ValidationError = Some ''x''\<rparr>"
    by (simp add: isStatusOk_NewPayloadV3_iff VALID_def INVALID_def SYNCING_def ACCEPTED_def)
  have n2: "\<not> isStatusOk_ForkchoiceUpdatedV3
      \<lparr>PayloadStatus = status_only ''ACCEPTED'', PayloadID = Some [7::byte]\<rparr>"
    by (simp add: isStatusOk_ForkchoiceUpdatedV3_iff VALID_def INVALID_def SYNCING_def ACCEPTED_def
          status_only_def)
  have s: "Status (status_only ''ACCEPTED'') = ''ACCEPTED''" by (simp add: status_only_def)
  show ?thesis
    using failure_returns_zero_value_and_status_in_error
      [of "''omni_evm''" ?np empty_heap empty_payload "[]" None ?fc zero_state None] n1 n2 s
    by (simp add: prod_eq_iff)
qed

end
